theory Spec2Isabelle
  imports Complex_Main "HOL-Library.AList"
begin

section \<open>Shared vocabulary of the QUIC layers\<close>

text \<open>
  The development embeds \<^verbatim>\<open>mitmproxy/proxy/layers/quic.py\<close>.  Layers are Python
  generators that yield commands; a layer function is modelled as a function that takes
  the mutable state it touches and returns it updated, with every yielded command
  appended to an output list in yield order.  Exceptions are values of the type
  \<open>exn\<close>, returned on the left of a sum.  Two values of that type are not Python
  exceptions: \<open>Diverges\<close> is the outcome of a loop of the source that never ends, and
  \<open>OutOfFuel\<close> is the answer of a fuelled function of this development whose fuel ran
  out.
\<close>

type_synonym bytes = string
type_synonym ref = nat
type_synonym address = "string \<times> nat"

datatype exn =
    AssertionError | KeyError | AttributeError | TypeError | UnicodeDecodeError
  | UnicodeEncodeError | Diverges | OutOfFuel

text \<open>The two connection objects of a context: \<^verbatim>\<open>context.client\<close> and \<^verbatim>\<open>context.server\<close>.\<close>

datatype conn = ClientConn | ServerConn

text \<open>
  The engine events of \<^verbatim>\<open>aioquic.quic.events\<close> that the layers distinguish, with the
  fields the source reads.  \<open>ConnectionTerminated\<close> carries error code, frame type and
  reason phrase; \<open>StreamDataReceived\<close> carries stream id, data and the end-of-stream
  flag; \<open>StreamReset\<close> carries stream id and error code.  \<open>OtherQuicEvent\<close> stands for
  any event class that no \<^verbatim>\<open>isinstance\<close> test of the source matches.
\<close>

datatype QuicEvent =
    ConnectionIdIssued bytes
  | ConnectionIdRetired bytes
  | ConnectionTerminated int "int option" string
  | DatagramFrameReceived bytes
  | HandshakeCompleted "string option" bool bool
  | PingAcknowledged
  | ProtocolNegotiated
  | StreamDataReceived int bytes bool
  | StreamReset int int
  | OtherQuicEvent nat

text \<open>
  Hooks are the blocking commands answered by addons.  The flow hooks carry a reference
  to the flow object handed to the addons; the TLS hooks carry the connection whose
  \<^verbatim>\<open>QuicTlsData\<close> they report.
\<close>

datatype Hook =
    TcpStartHook ref
  | TcpMessageHook ref
  | TcpEndHook ref
  | TcpErrorHook ref
  | UdpStartHook ref
  | UdpMessageHook ref
  | UdpEndHook ref
  | UdpErrorHook ref
  | QuicTlsStartClientHook
  | QuicTlsStartServerHook
  | TlsClienthelloHook
  | TlsEstablishedClientHook
  | TlsEstablishedServerHook
  | TlsFailedClientHook
  | TlsFailedServerHook

text \<open>
  Log messages are f-strings in the source; a message is kept as its template together
  with the interpolated values.
\<close>

datatype LogMessage =
    ReceivedOnClosedStream nat int
  | ResetOnClosedStream int
  | IgnoredQuicEvent QuicEvent
  | QuicConnectionDestroyed conn string
  | QuicConnectionEstablished conn bool bool
  | QuicConnectionCreated conn
  | NoQuicTlsSettings conn
  | NoRouteTo conn address
  | CannotParseClientHello string bytes
  | UnableToEstablishServerQuic string
  | LogText string

datatype Command =
    HookCmd Hook
  | Log LogMessage string
  | SendData conn bytes
  | OpenConnection conn
  | CloseConnection conn
  | RequestWakeup nat real
  | QuicTransmit conn ref

text \<open>
  Modelled from the spec: the flow and message classes (\<^verbatim>\<open>tcp.TCPFlow\<close>,
  \<^verbatim>\<open>udp.UDPFlow\<close>, \<^verbatim>\<open>tcp.TCPMessage\<close>, \<^verbatim>\<open>udp.UDPMessage\<close>) are declared outside this
  file.  Each flow has an ordered message list, an error field and a live flag; a
  message has a direction and a content.  Flows and messages are objects shared with the
  addons, so they live in a store indexed by reference and a flow lists its messages by
  reference.
\<close>

record Message =
  from_client :: bool
  content :: bytes

record Flow =
  messages :: "ref list"
  error :: "string option"
  live :: bool

record heap =
  msgs :: "ref \<Rightarrow> Message"
  tcp_flows :: "ref \<Rightarrow> Flow"
  udp_flows :: "ref \<Rightarrow> Flow"

text \<open>
  What a generator has done so far: the store, the commands yielded, and the next
  unused object reference.
\<close>

record io =
  heap :: heap
  out :: "Command list"
  next_ref :: ref

text \<open>
  The parts of the environment that are not in this file: the stream-id predicates and
  the error-code enumerations of the engine library; the addons, which answer a hook
  by mutating the objects of the store; and the runtime's answer to an
  \<^verbatim>\<open>OpenConnection\<close> command (an error string or \<^verbatim>\<open>None\<close>), which may depend on the
  commands yielded so far.
\<close>

record env =
  stream_is_unidirectional :: "int \<Rightarrow> bool"
  stream_is_client_initiated :: "int \<Rightarrow> bool"
  QuicErrorCode_NO_ERROR :: int
  H3ErrorCode_H3_NO_ERROR :: int
  H3ErrorCode_name :: "int \<Rightarrow> string option"
  QuicErrorCode_name :: "int \<Rightarrow> string option"
  addon :: "Hook \<Rightarrow> heap \<Rightarrow> heap"
  runtime_open :: "Command list \<Rightarrow> string option"

definition emit :: "Command \<Rightarrow> io \<Rightarrow> io" where
  "emit c s = s\<lparr>out := out s @ [c]\<rparr>"

text \<open>Yielding a hook: the command goes out and the addons run before the generator resumes.\<close>

definition emit_hook :: "env \<Rightarrow> Hook \<Rightarrow> io \<Rightarrow> io" where
  "emit_hook e h s = s\<lparr>out := out s @ [HookCmd h], heap := addon e h (heap s)\<rparr>"

section \<open>Error codes\<close>

fun hex_digit :: "nat \<Rightarrow> char" where
  "hex_digit n = (''0123456789abcdef'' ! n)"

fun hex_nat :: "nat \<Rightarrow> string" where
  "hex_nat n = (if n < 16 then [hex_digit n] else hex_nat (n div 16) @ [hex_digit (n mod 16)])"

definition hex_int :: "int \<Rightarrow> string" where
  "hex_int i = (if i < 0 then ''-'' @ hex_nat (nat (- i)) else hex_nat (nat i))"

definition error_code_to_str :: "env \<Rightarrow> int \<Rightarrow> string" where
  "error_code_to_str e error_code =
     (case H3ErrorCode_name e error_code of
        Some name \<Rightarrow> name
      | None \<Rightarrow>
          (case QuicErrorCode_name e error_code of
             Some name \<Rightarrow> name
           | None \<Rightarrow> ''unknown error (0x'' @ hex_int error_code @ '')''))"

definition is_success_error_code :: "env \<Rightarrow> int \<Rightarrow> bool" where
  "is_success_error_code e error_code =
     (error_code \<in> set [QuicErrorCode_NO_ERROR e, H3ErrorCode_H3_NO_ERROR e])"

section \<open>QuicStream\<close>

record QuicStream =
  flow :: "ref option"
  stream_id :: int
  ended_client :: bool
  ended_server :: bool

definition new_tcp_flow :: "io \<Rightarrow> ref \<times> io" where
  "new_tcp_flow s =
     (let r = next_ref s in
      (r, s\<lparr>heap := (heap s)\<lparr>tcp_flows := (tcp_flows (heap s))
                (r := \<lparr>messages = [], error = None, live = True\<rparr>)\<rparr>,
            next_ref := Suc r\<rparr>))"

definition QuicStream_init :: "env \<Rightarrow> int \<Rightarrow> bool \<Rightarrow> io \<Rightarrow> QuicStream \<times> io" where
  "QuicStream_init e sid ignore s =
     (let (fl, s') = (if ignore then (None, s)
                      else (let (r, s1) = new_tcp_flow s in (Some r, s1)));
          is_unidirectional = stream_is_unidirectional e sid;
          from_cl = stream_is_client_initiated e sid
      in (\<lparr>flow = fl, stream_id = sid,
           ended_client = (is_unidirectional \<and> \<not> from_cl),
           ended_server = (is_unidirectional \<and> from_cl)\<rparr>, s'))"

definition has_ended :: "QuicStream \<Rightarrow> bool \<Rightarrow> bool" where
  "has_ended st client = (if client then ended_client st else ended_server st)"

definition set_tcp_error :: "ref \<Rightarrow> string \<Rightarrow> io \<Rightarrow> io" where
  "set_tcp_error f msg s =
     s\<lparr>heap := (heap s)\<lparr>tcp_flows := (tcp_flows (heap s))
          (f := (tcp_flows (heap s) f)\<lparr>error := Some msg\<rparr>)\<rparr>\<rparr>"

definition set_tcp_live :: "ref \<Rightarrow> bool \<Rightarrow> io \<Rightarrow> io" where
  "set_tcp_live f b s =
     s\<lparr>heap := (heap s)\<lparr>tcp_flows := (tcp_flows (heap s))
          (f := (tcp_flows (heap s) f)\<lparr>live := b\<rparr>)\<rparr>\<rparr>"

definition tcp_error :: "io \<Rightarrow> ref \<Rightarrow> string option" where
  "tcp_error s f = error (tcp_flows (heap s) f)"

text \<open>
  \<^verbatim>\<open>mark_ended\<close>: the two assertions come first; an ignored stream (no flow) is done after
  the flag is set; the first error is stored and reported; when both sides have ended the
  end hook is yielded if the flow (as the addons left it) has no error, and the live flag
  is cleared after that hook.
\<close>

definition mark_ended ::
  "env \<Rightarrow> bool \<Rightarrow> string option \<Rightarrow> QuicStream \<Rightarrow> io \<Rightarrow> exn + (QuicStream \<times> io)" where
  "mark_ended e client err st s =
     (if (if client then ended_client st else ended_server st) then Inl AssertionError
      else
        (let st1 = (if client then st\<lparr>ended_client := True\<rparr> else st\<lparr>ended_server := True\<rparr>) in
         case flow st1 of
           None \<Rightarrow> Inr (st1, s)
         | Some f \<Rightarrow>
             (let s1 = (case err of
                          Some msg \<Rightarrow>
                            (if tcp_error s f = None
                             then emit_hook e (TcpErrorHook f) (set_tcp_error f msg s)
                             else s)
                        | None \<Rightarrow> s);
                  s2 = (if ended_client st1 \<and> ended_server st1
                        then set_tcp_live f False
                               (if tcp_error s1 f = None then emit_hook e (TcpEndHook f) s1 else s1)
                        else s1)
              in Inr (st1, s2))))"


section \<open>The engine as the layers see it\<close>

text \<open>
  A \<^verbatim>\<open>QuicConnection\<close> of the engine library is an object shared between the layer that
  owns it and the relay above.  The model keeps what the layers read from it: the event
  queue drained by \<^verbatim>\<open>next_event\<close>, the private \<^verbatim>\<open>_close_event\<close>, whether \<^verbatim>\<open>_state\<close>
  is \<^verbatim>\<open>TERMINATED\<close>, and the TLS results read when the handshake completes.  The method
  calls that the layers make on engines are recorded, in call order, in a list kept beside
  the engine objects.
\<close>

datatype EngineCall =
    SendDatagramFrame bytes
  | SendStreamData int bytes bool
  | ResetStream int int
  | Close "int option" "int option" string
  | ReceiveDatagram bytes address real
  | HandleTimer real
  | Connect address real
  | DatagramsToSend real
  | GetTimer

record QuicConnection =
  events :: "QuicEvent list"
  close_event :: "(int \<times> int option \<times> string) option"
  terminated :: bool
  peer_certificate :: "nat option"
  peer_certificate_chain :: "nat list option"
  cipher_suite_name :: string

section \<open>QuicStreamLayer: the relay\<close>

datatype Event =
    Start
  | DataReceived conn bytes
  | ConnectionClosed conn
  | QuicStart conn "ref option"
  | QuicConnectionEvent conn QuicEvent
  | TcpMessageInjected ref Message
  | UdpMessageInjected ref Message
  | Wakeup Command
  | OpenConnectionCompleted Command "string option"

datatype LayerState = StateStart | StateReady | StateDone

text \<open>
  The relay's fields, the two \<^verbatim>\<open>connected\<close> flags of its context, the engine objects it
  can reach and its generator state.  The dictionaries keep insertion order.  Both
  dictionaries of streams hold the same \<^verbatim>\<open>QuicStream\<close> objects: an object is stored once,
  under its id, and \<open>streams_by_flow\<close> holds the id of the stream of a flow.
\<close>

record QuicStreamLayer =
  buffer_from_client :: "QuicEvent list"
  buffer_from_server :: "QuicEvent list"
  udp_flow :: "ref option"
  quic_client :: "ref option"
  quic_server :: "ref option"
  streams_by_flow :: "(ref \<times> int) list"
  streams_by_id :: "(int \<times> QuicStream) list"
  handle_event_state :: LayerState
  client_connected :: bool
  server_connected :: bool
  server_timestamp_start :: "real option"
  engines :: "ref \<Rightarrow> QuicConnection"
  engine_calls :: "(ref \<times> EngineCall) list"
  gen :: io

definition new_udp_flow :: "io \<Rightarrow> ref \<times> io" where
  "new_udp_flow s =
     (let r = next_ref s in
      (r, s\<lparr>heap := (heap s)\<lparr>udp_flows := (udp_flows (heap s))
                (r := \<lparr>messages = [], error = None, live = True\<rparr>)\<rparr>,
            next_ref := Suc r\<rparr>))"

definition QuicStreamLayer_init ::
  "bool \<Rightarrow> bool \<Rightarrow> bool \<Rightarrow> real option \<Rightarrow> (ref \<Rightarrow> QuicConnection) \<Rightarrow> io
     \<Rightarrow> QuicStreamLayer" where
  "QuicStreamLayer_init ignore cc sc ts engs s =
     (let (fl, s') = (if ignore then (None, s)
                      else (let (r, s1) = new_udp_flow s in (Some r, s1)))
      in \<lparr>buffer_from_client = [], buffer_from_server = [], udp_flow = fl,
          quic_client = None, quic_server = None, streams_by_flow = [], streams_by_id = [],
          handle_event_state = StateStart, client_connected = cc, server_connected = sc,
          server_timestamp_start = ts, engines = engs, engine_calls = [], gen = s'\<rparr>)"

definition yield :: "Command \<Rightarrow> QuicStreamLayer \<Rightarrow> QuicStreamLayer" where
  "yield c l = l\<lparr>gen := emit c (gen l)\<rparr>"

definition yield_hook :: "env \<Rightarrow> Hook \<Rightarrow> QuicStreamLayer \<Rightarrow> QuicStreamLayer" where
  "yield_hook e h l = l\<lparr>gen := emit_hook e h (gen l)\<rparr>"

definition engine_call :: "ref \<Rightarrow> EngineCall \<Rightarrow> QuicStreamLayer \<Rightarrow> QuicStreamLayer" where
  "engine_call q c l = l\<lparr>engine_calls := engine_calls l @ [(q, c)]\<rparr>"

definition new_message :: "bool \<Rightarrow> bytes \<Rightarrow> io \<Rightarrow> ref \<times> io" where
  "new_message fc data s =
     (let r = next_ref s in
      (r, s\<lparr>heap := (heap s)\<lparr>msgs := (msgs (heap s))(r := \<lparr>from_client = fc, content = data\<rparr>)\<rparr>,
            next_ref := Suc r\<rparr>))"

definition append_udp_message :: "ref \<Rightarrow> ref \<Rightarrow> io \<Rightarrow> io" where
  "append_udp_message f m s =
     s\<lparr>heap := (heap s)\<lparr>udp_flows := (udp_flows (heap s))
          (f := (udp_flows (heap s) f)\<lparr>messages := messages (udp_flows (heap s) f) @ [m]\<rparr>)\<rparr>\<rparr>"

definition append_tcp_message :: "ref \<Rightarrow> ref \<Rightarrow> io \<Rightarrow> io" where
  "append_tcp_message f m s =
     s\<lparr>heap := (heap s)\<lparr>tcp_flows := (tcp_flows (heap s))
          (f := (tcp_flows (heap s) f)\<lparr>messages := messages (tcp_flows (heap s) f) @ [m]\<rparr>)\<rparr>\<rparr>"

definition get_or_create_stream ::
  "env \<Rightarrow> int \<Rightarrow> QuicStreamLayer \<Rightarrow> QuicStream \<times> QuicStreamLayer" where
  "get_or_create_stream e sid l =
     (case map_of (streams_by_id l) sid of
        Some st \<Rightarrow> (st, l)
      | None \<Rightarrow>
          (let (st, s') = QuicStream_init e sid (udp_flow l = None) (gen l);
               l1 = l\<lparr>gen := s',
                      streams_by_id := AList.update (stream_id st) st (streams_by_id l)\<rparr>
           in case flow st of
                None \<Rightarrow> (st, l1)
              | Some f \<Rightarrow>
                  (st, yield_hook e (TcpStartHook f)
                         (l1\<lparr>streams_by_flow :=
                                AList.update f (stream_id st) (streams_by_flow l1)\<rparr>))))"

text \<open>\<^verbatim>\<open>stream.mark_ended(...)\<close> on a stream object held in \<open>streams_by_id\<close>.\<close>

definition stream_mark_ended ::
  "env \<Rightarrow> bool \<Rightarrow> string option \<Rightarrow> QuicStream \<Rightarrow> QuicStreamLayer \<Rightarrow> exn + QuicStreamLayer" where
  "stream_mark_ended e fc err st l =
     (case mark_ended e fc err st (gen l) of
        Inl x \<Rightarrow> Inl x
      | Inr r \<Rightarrow>
          Inr (l\<lparr>gen := snd r,
                 streams_by_id := AList.update (stream_id st) (fst r) (streams_by_id l)\<rparr>))"

text \<open>The three forwarding branches of \<^verbatim>\<open>handle_quic_event\<close>, up to the final transmit.\<close>

definition forward_datagram ::
  "env \<Rightarrow> bytes \<Rightarrow> bool \<Rightarrow> ref \<Rightarrow> QuicStreamLayer \<Rightarrow> QuicStreamLayer" where
  "forward_datagram e data fc peer_quic l =
     (case udp_flow l of
        Some f \<Rightarrow>
          (let (m, s1) = new_message fc data (gen l);
               s2 = emit_hook e (UdpMessageHook f) (append_udp_message f m s1)
           in engine_call peer_quic (SendDatagramFrame (content (msgs (heap s2) m)))
                (l\<lparr>gen := s2\<rparr>))
      | None \<Rightarrow> engine_call peer_quic (SendDatagramFrame data) l)"

text \<open>
  The message step of the stream branch: with a flow, the message object is created,
  appended to the flow and shown to the addons, and its content is read back; without a
  flow the event's data is taken.  The result is then passed to \<^verbatim>\<open>send_stream_data\<close>.
\<close>

definition send_stream_payload ::
  "env \<Rightarrow> QuicStream \<Rightarrow> bytes \<Rightarrow> bool \<Rightarrow> bool \<Rightarrow> ref \<Rightarrow> QuicStreamLayer \<Rightarrow> QuicStreamLayer" where
  "send_stream_payload e st data end_stream fc peer_quic l =
     (case flow st of
        Some f \<Rightarrow>
          (let (m, s1) = new_message fc data (gen l);
               s2 = emit_hook e (TcpMessageHook f) (append_tcp_message f m s1)
           in engine_call peer_quic
                (SendStreamData (stream_id st) (content (msgs (heap s2) m)) end_stream)
                (l\<lparr>gen := s2\<rparr>))
      | None \<Rightarrow> engine_call peer_quic (SendStreamData (stream_id st) data end_stream) l)"

definition forward_stream_data ::
  "env \<Rightarrow> int \<Rightarrow> bytes \<Rightarrow> bool \<Rightarrow> bool \<Rightarrow> ref \<Rightarrow> conn \<Rightarrow> QuicStreamLayer
     \<Rightarrow> exn + QuicStreamLayer" where
  "forward_stream_data e sid data end_stream fc peer_quic peer_connection l0 =
     (let (st, l) = get_or_create_stream e sid l0 in
      if has_ended st fc
      then Inr (yield (Log (ReceivedOnClosedStream (length data) sid) ''debug'') l)
      else
        (let l1 = send_stream_payload e st data end_stream fc peer_quic l
         in case (if end_stream then stream_mark_ended e fc None st l1 else Inr l1) of
              Inl x \<Rightarrow> Inl x
            | Inr l2 \<Rightarrow> Inr (yield (QuicTransmit peer_connection peer_quic) l2)))"

definition forward_stream_reset ::
  "env \<Rightarrow> int \<Rightarrow> int \<Rightarrow> bool \<Rightarrow> ref \<Rightarrow> conn \<Rightarrow> QuicStreamLayer \<Rightarrow> exn + QuicStreamLayer" where
  "forward_stream_reset e sid code fc peer_quic peer_connection l0 =
     (let (st, l) = get_or_create_stream e sid l0 in
      if has_ended st fc
      then Inr (yield (Log (ResetOnClosedStream sid) ''debug'') l)
      else
        (let l1 = engine_call peer_quic (ResetStream (stream_id st) code) l
         in case stream_mark_ended e fc (Some (error_code_to_str e code)) st l1 of
              Inl x \<Rightarrow> Inl x
            | Inr l2 \<Rightarrow> Inr (yield (QuicTransmit peer_connection peer_quic) l2)))"

definition handle_quic_event ::
  "env \<Rightarrow> QuicEvent \<Rightarrow> bool \<Rightarrow> QuicStreamLayer \<Rightarrow> exn + QuicStreamLayer" where
  "handle_quic_event e event fc l =
     (case (if fc then quic_server l else quic_client l) of
        None \<Rightarrow>
          Inr (if fc then l\<lparr>buffer_from_client := buffer_from_client l @ [event]\<rparr>
               else l\<lparr>buffer_from_server := buffer_from_server l @ [event]\<rparr>)
      | Some peer_quic \<Rightarrow>
          (let peer_connection = (if fc then ServerConn else ClientConn) in
           case event of
             DatagramFrameReceived data \<Rightarrow>
               Inr (yield (QuicTransmit peer_connection peer_quic)
                      (forward_datagram e data fc peer_quic l))
           | StreamDataReceived sid data end_stream \<Rightarrow>
               forward_stream_data e sid data end_stream fc peer_quic peer_connection l
           | StreamReset sid code \<Rightarrow>
               forward_stream_reset e sid code fc peer_quic peer_connection l
           | _ \<Rightarrow> Inr (yield (Log (IgnoredQuicEvent event) ''debug'') l)))"

text \<open>
  The loop of \<^verbatim>\<open>state_done\<close> over \<^verbatim>\<open>streams_by_id.values()\<close>.  Each stream object is
  visited once and only the visited object is changed, so the loop runs over the entries
  as they are when it starts.
\<close>

fun end_streams ::
  "env \<Rightarrow> bool \<Rightarrow> (int \<times> QuicStream) list \<Rightarrow> QuicStreamLayer \<Rightarrow> exn + QuicStreamLayer" where
  "end_streams e fc [] l = Inr l"
| "end_streams e fc (p # ps) l =
     (if has_ended (snd p) fc then end_streams e fc ps l
      else
        (case stream_mark_ended e fc (Some ''Connection closed.'') (snd p) l of
           Inl x \<Rightarrow> Inl x
         | Inr l' \<Rightarrow> end_streams e fc ps l'))"

definition set_udp_error :: "ref \<Rightarrow> string \<Rightarrow> io \<Rightarrow> io" where
  "set_udp_error f msg s =
     s\<lparr>heap := (heap s)\<lparr>udp_flows := (udp_flows (heap s))
          (f := (udp_flows (heap s) f)\<lparr>error := Some msg\<rparr>)\<rparr>\<rparr>"

definition set_udp_live :: "ref \<Rightarrow> bool \<Rightarrow> io \<Rightarrow> io" where
  "set_udp_live f b s =
     s\<lparr>heap := (heap s)\<lparr>udp_flows := (udp_flows (heap s))
          (f := (udp_flows (heap s) f)\<lparr>live := b\<rparr>)\<rparr>\<rparr>"

definition state_done :: "env \<Rightarrow> Event \<Rightarrow> QuicStreamLayer \<Rightarrow> exn + QuicStreamLayer" where
  "state_done e event l =
     (case event of
        ConnectionClosed c \<Rightarrow>
          (case end_streams e (c = ClientConn) (streams_by_id l) l of
             Inl x \<Rightarrow> Inl x
           | Inr l1 \<Rightarrow>
               (case udp_flow l1 of
                  Some f \<Rightarrow>
                    (if \<not> client_connected l1 \<and> \<not> server_connected l1
                     then Inr (l1\<lparr>gen := set_udp_live f False
                                 (if error (udp_flows (heap (gen l1)) f) = None
                                  then emit_hook e (UdpEndHook f) (gen l1) else gen l1)\<rparr>)
                     else Inr l1)
                | None \<Rightarrow> Inr l1))
      | QuicStart c q \<Rightarrow> Inr l
      | QuicConnectionEvent c ev \<Rightarrow> Inr l
      | TcpMessageInjected f m \<Rightarrow> Inr l
      | UdpMessageInjected f m \<Rightarrow> Inr l
      | _ \<Rightarrow> Inl AssertionError)"

text \<open>
  The replay loop of the \<^verbatim>\<open>QuicStart\<close> branch, for an event that carries an engine.
  The buffer it reads is not appended to while it runs (the peer of the replayed side has
  just been registered), so the loop runs over the buffer as it is when it starts.

  The layer below can also send a \<^verbatim>\<open>QuicStart\<close> whose \<^verbatim>\<open>quic\<close> is \<^verbatim>\<open>None\<close>.  Then the
  peer stays unregistered, and \<^verbatim>\<open>handle_quic_event\<close> appends every replayed event to the
  very list the loop runs over: with a non-empty buffer the loop never ends, with an empty
  one nothing happens.  \<^verbatim>\<open>state_ready\<close> below has the two cases.
\<close>

fun replay :: "env \<Rightarrow> bool \<Rightarrow> QuicEvent list \<Rightarrow> QuicStreamLayer \<Rightarrow> exn + QuicStreamLayer" where
  "replay e fc [] l = Inr l"
| "replay e fc (ev # evs) l =
     (case handle_quic_event e ev fc l of
        Inl x \<Rightarrow> Inl x
      | Inr l' \<Rightarrow> replay e fc evs l')"

definition close_peer ::
  "conn \<Rightarrow> ref option \<Rightarrow> (int \<times> int option \<times> string) option \<Rightarrow> QuicStreamLayer
     \<Rightarrow> QuicStreamLayer" where
  "close_peer peer_conn peer_quic close_ev l =
     (case peer_quic of
        Some pq \<Rightarrow>
          (case close_ev of
             Some ce \<Rightarrow>
               yield (QuicTransmit peer_conn pq)
                 (engine_call pq (Close (Some (fst ce)) (fst (snd ce)) (snd (snd ce))) l)
           | None \<Rightarrow> yield (CloseConnection peer_conn) l)
      | None \<Rightarrow> yield (CloseConnection peer_conn) l)"

definition report_close_error ::
  "env \<Rightarrow> (int \<times> int option \<times> string) option \<Rightarrow> QuicStreamLayer \<Rightarrow> QuicStreamLayer" where
  "report_close_error e close_ev l =
     (case udp_flow l of
        Some f \<Rightarrow>
          (case close_ev of
             Some ce \<Rightarrow>
               (if \<not> is_success_error_code e (fst ce)
                then l\<lparr>gen := emit_hook e (UdpErrorHook f)
                        (set_udp_error f
                           (if snd (snd ce) \<noteq> [] then snd (snd ce)
                            else error_code_to_str e (fst ce))
                           (gen l))\<rparr>
                else l)
           | None \<Rightarrow> l)
      | None \<Rightarrow> l)"

definition state_ready :: "env \<Rightarrow> Event \<Rightarrow> QuicStreamLayer \<Rightarrow> exn + QuicStreamLayer" where
  "state_ready e event l =
     (case event of
        ConnectionClosed c \<Rightarrow>
          (let fc = (c = ClientConn);
               peer_conn = (if fc then ServerConn else ClientConn);
               peer_quic = (if fc then quic_server l else quic_client l);
               closed_quic = (if fc then quic_client l else quic_server l);
               close_ev = (case closed_quic of
                             None \<Rightarrow> None
                           | Some q \<Rightarrow> close_event (engines l q));
               l1 = close_peer peer_conn peer_quic close_ev l;
               l2 = report_close_error e close_ev l1
           in state_done e event (l2\<lparr>handle_event_state := StateDone\<rparr>))
      | QuicStart c event_quic \<Rightarrow>
          (let fc = (c = ClientConn);
               buffer_from_peer = (if fc then buffer_from_server l else buffer_from_client l)
           in if (if fc then quic_client l else quic_server l) \<noteq> None then Inl AssertionError
              else
                (case event_quic of
                   None \<Rightarrow> if buffer_from_peer = [] then Inr l else Inl Diverges
                 | Some q \<Rightarrow>
                     (case replay e (\<not> fc) buffer_from_peer
                             (if fc then l\<lparr>quic_client := Some q\<rparr>
                              else l\<lparr>quic_server := Some q\<rparr>) of
                        Inl x \<Rightarrow> Inl x
                      | Inr l' \<Rightarrow>
                          Inr (if fc then l'\<lparr>buffer_from_server := []\<rparr>
                               else l'\<lparr>buffer_from_client := []\<rparr>))))
      | TcpMessageInjected f m \<Rightarrow>
          (case map_of (streams_by_flow l) f of
             None \<Rightarrow> Inl KeyError
           | Some sid \<Rightarrow>
               handle_quic_event e (StreamDataReceived sid (content m) False) (from_client m) l)
      | UdpMessageInjected f m \<Rightarrow>
          (if udp_flow l \<noteq> Some f then Inl AssertionError
           else handle_quic_event e (DatagramFrameReceived (content m)) (from_client m) l)
      | QuicConnectionEvent c ev \<Rightarrow> handle_quic_event e ev (c = ClientConn) l
      | _ \<Rightarrow> Inl AssertionError)"

text \<open>Python's truth test on the optional error string that answers \<^verbatim>\<open>OpenConnection\<close>.\<close>

definition truthy :: "string option \<Rightarrow> bool" where
  "truthy err = (case err of None \<Rightarrow> False | Some msg \<Rightarrow> msg \<noteq> [])"

definition state_start :: "env \<Rightarrow> Event \<Rightarrow> QuicStreamLayer \<Rightarrow> exn + QuicStreamLayer" where
  "state_start e event l =
     (case event of
        Start \<Rightarrow>
          (let l1 = (case udp_flow l of
                       Some f \<Rightarrow> yield_hook e (UdpStartHook f) l
                     | None \<Rightarrow> l)
           in if server_timestamp_start l1 = None
              then
                (let l2 = yield (OpenConnection ServerConn) l1;
                     err = runtime_open e (out (gen l2))
                 in case (if truthy err then err else None) of
                      Some msg \<Rightarrow>
                        (let l3 = (case udp_flow l2 of
                                     Some f \<Rightarrow>
                                       l2\<lparr>gen := emit_hook e (UdpErrorHook f)
                                               (set_udp_error f msg (gen l2))\<rparr>
                                   | None \<Rightarrow> l2)
                         in Inr ((yield (CloseConnection ClientConn) l3)
                                   \<lparr>handle_event_state := StateDone\<rparr>))
                    | None \<Rightarrow> Inr (l2\<lparr>handle_event_state := StateReady\<rparr>))
              else Inr (l1\<lparr>handle_event_state := StateReady\<rparr>))
      | _ \<Rightarrow> Inl AssertionError)"

text \<open>\<^verbatim>\<open>_handle_event\<close> is the state function currently installed.\<close>

definition relay_handle_event :: "env \<Rightarrow> Event \<Rightarrow> QuicStreamLayer \<Rightarrow> exn + QuicStreamLayer" where
  "relay_handle_event e event l =
     (case handle_event_state l of
        StateStart \<Rightarrow> state_start e event l
      | StateReady \<Rightarrow> state_ready e event l
      | StateDone \<Rightarrow> state_done e event l)"

fun relay_handle_events :: "env \<Rightarrow> Event list \<Rightarrow> QuicStreamLayer \<Rightarrow> exn + QuicStreamLayer" where
  "relay_handle_events e [] l = Inr l"
| "relay_handle_events e (ev # evs) l =
     (case relay_handle_event e ev l of
        Inl x \<Rightarrow> Inl x
      | Inr l' \<Rightarrow> relay_handle_events e evs l')"

text \<open>Commands that report the end of a flow to the addons.\<close>

definition ending_hook :: "Command \<Rightarrow> bool" where
  "ending_hook c =
     (\<exists>f. c = HookCmd (TcpErrorHook f) \<or> c = HookCmd (TcpEndHook f) \<or> c = HookCmd (UdpEndHook f))"

section \<open>A concrete relay\<close>

text \<open>
  A concrete environment and relay on which the theorems below are instantiated.  The
  stream-id predicates read the two low bits of the id, the success codes are \<open>0x0\<close> and
  \<open>0x100\<close>, and the addon rewrites the newest message of a TCP flow to \<open>ab\<close> when the
  message hook fires.
\<close>

definition demo_addon :: "Hook \<Rightarrow> heap \<Rightarrow> heap" where
  "demo_addon h x =
     (case h of
        TcpMessageHook f \<Rightarrow>
          (case rev (messages (tcp_flows x f)) of
             [] \<Rightarrow> x
           | m # ms \<Rightarrow> x\<lparr>msgs := (msgs x)(m := (msgs x m)\<lparr>content := ''ab''\<rparr>)\<rparr>)
      | _ \<Rightarrow> x)"

definition demo_env :: env where
  "demo_env =
     \<lparr>stream_is_unidirectional = (\<lambda>sid. (sid div 2) mod 2 = 1),
      stream_is_client_initiated = (\<lambda>sid. sid mod 2 = 0),
      QuicErrorCode_NO_ERROR = 0,
      H3ErrorCode_H3_NO_ERROR = 256,
      H3ErrorCode_name = (\<lambda>c. if c = 256 then Some ''H3_NO_ERROR'' else None),
      QuicErrorCode_name = (\<lambda>c. if c = 0 then Some ''NO_ERROR''
                                   else if c = 1 then Some ''INTERNAL_ERROR'' else None),
      addon = demo_addon,
      runtime_open = (\<lambda>cs. None)\<rparr>"

definition demo_heap :: heap where
  "demo_heap =
     \<lparr>msgs = (\<lambda>r. \<lparr>from_client = False, content = []\<rparr>),
      tcp_flows = (\<lambda>r. \<lparr>messages = [], error = None, live = False\<rparr>),
      udp_flows = (\<lambda>r. \<lparr>messages = [], error = None, live = False\<rparr>)\<rparr>"

definition demo_io :: io where
  "demo_io = \<lparr>heap = demo_heap, out = [], next_ref = 0\<rparr>"

definition demo_engine :: QuicConnection where
  "demo_engine =
     \<lparr>events = [], close_event = None, terminated = False, peer_certificate = None,
      peer_certificate_chain = None, cipher_suite_name = ''TLS_AES_128_GCM_SHA256''\<rparr>"

text \<open>A relay in the Ready state with no engine registered yet; its UDP flow is object 0.\<close>

definition demo_relay :: QuicStreamLayer where
  "demo_relay =
     (QuicStreamLayer_init False True True (Some 0) (\<lambda>q. demo_engine) demo_io)
       \<lparr>handle_event_state := StateReady\<rparr>"

text \<open>The same relay with the client engine (object 1) and the server engine (object 2) registered.\<close>

definition demo_relay_both :: QuicStreamLayer where
  "demo_relay_both = demo_relay\<lparr>quic_client := Some 1, quic_server := Some 2\<rparr>"

section \<open>QuicLayer, ServerQuicLayer and ClientQuicLayer\<close>

text \<open>
  Modelled from the spec: the connection class is declared outside this file.  An
  endpoint has a peer address, a local socket address, SNI, ALPN, the certificates
  observed, the TLS-setup timestamp (TLS is established when it is set), an error string
  and a connected flag.
\<close>

record Connection =
  peername :: address
  sockname :: address
  connected :: bool
  conn_error :: "string option"
  timestamp_tls_setup :: "real option"
  sni :: "string option"
  alpn :: "bytes option"
  alpn_offers :: "bytes list"
  cipher :: "string option"
  tls_version :: "string option"
  certificate_list :: "nat list"

definition tls_established :: "Connection \<Rightarrow> bool" where
  "tls_established c = (timestamp_tls_setup c \<noteq> None)"

text \<open>\<^verbatim>\<open>QuicTlsSettings\<close> is passed on unread, apart from the test for \<^verbatim>\<open>None\<close>.\<close>

type_synonym QuicTlsSettings = nat

record QuicConfiguration =
  alpn_protocols :: "string list"
  connection_id_length :: nat
  is_client :: bool
  server_name :: "string option"
  tls_settings :: QuicTlsSettings

record QuicHeader =
  version :: "int option"
  packet_type :: nat
  destination_cid :: bytes
  source_cid :: bytes

record ClientHello =
  hello_sni :: "string option"
  hello_alpn_protocols :: "bytes list"

text \<open>
  What a library function is handed as an iterable: a list, or a generator, of which
  only the items not yet consumed remain.
\<close>

datatype 'a iterable = PyList "'a list" | PyGenerator "'a list"

text \<open>The layers that \<^verbatim>\<open>replace_layer\<close> installs.\<close>

datatype Replacement = QuicRoamingLayer nat | IgnoredUDPLayer

text \<open>
  The environment of a layer: the base environment; the child layer, which answers an
  event with the commands it yields and its new state; the event loop's clock, read by
  count of readings, and the subtraction of Python floats (a time is a double, written
  as the real number it stands for; comparing two doubles and taking their maximum is
  exact, their difference is rounded to a double); the addons' answers to the TLS-start and ClientHello hooks; the
  engine library (the constructor, the reactions of an engine to the calls that feed
  it, and what it hands out); the library's packet functions and enumerations; and what
  a replacement layer yields.
\<close>

record 'c layer_env =
  base :: env
  child_handle_event :: "Event \<Rightarrow> 'c \<Rightarrow> Command list \<times> 'c"
  loop_time :: "nat \<Rightarrow> real"
  float_sub :: "real \<Rightarrow> real \<Rightarrow> real"
  tls_start_addon :: "conn \<Rightarrow> Command list \<Rightarrow> QuicTlsSettings option"
  clienthello_addon :: "ClientHello \<Rightarrow> bool \<times> bool"
  new_QuicConnection :: "QuicConfiguration \<Rightarrow> bytes option \<Rightarrow> QuicConnection"
  on_receive_datagram :: "bytes \<Rightarrow> address \<Rightarrow> real \<Rightarrow> QuicConnection \<Rightarrow> QuicConnection"
  on_handle_timer :: "real \<Rightarrow> QuicConnection \<Rightarrow> QuicConnection"
  on_connect :: "address \<Rightarrow> real \<Rightarrow> QuicConnection \<Rightarrow> QuicConnection"
  on_close :: "string \<Rightarrow> QuicConnection \<Rightarrow> QuicConnection"
  datagrams_to_send :: "real \<Rightarrow> QuicConnection \<Rightarrow> (bytes \<times> address) list \<times> QuicConnection"
  get_timer :: "QuicConnection \<Rightarrow> real option"
  QuicErrorCode_APPLICATION_ERROR :: int
  pull_quic_header :: "bytes \<Rightarrow> nat \<Rightarrow> QuicHeader option"
  QuicProtocolVersion :: "int list"
  QuicProtocolVersion_NEGOTIATION :: int
  encode_quic_version_negotiation :: "bytes \<Rightarrow> bytes \<Rightarrow> int iterable \<Rightarrow> exn + bytes"
  PACKET_TYPE_INITIAL :: nat
  quic_parse_client_hello :: "bytes \<Rightarrow> string + ClientHello"
  replacement_yields :: "Replacement \<Rightarrow> Event \<Rightarrow> Command list"

text \<open>
  One layer object with its context and with the state it shares with the rest of the
  process.  \<open>conn\<close> says which connection of the context is \<^verbatim>\<open>self.conn\<close>: the server
  connection for a \<^verbatim>\<open>ServerQuicLayer\<close>, the client connection for a \<^verbatim>\<open>ClientQuicLayer\<close>.
  The wakeup registry is keyed by command objects, which are told apart by the number
  they carry.  \<open>connections\<close> is the class-wide table of \<^verbatim>\<open>ClientQuicLayer\<close>, from
  (sockname, connection id) to the owning layer.  \<open>to_child\<close> lists the events handed to
  the child layer and \<open>written\<close> the datagrams written to a roamed handler's transport.
\<close>

record 'c QuicLayer =
  self_id :: nat
  conn :: conn
  child_layer :: 'c
  quic :: "ref option"
  tls :: "QuicTlsSettings option"
  wakeup_commands :: "(Command \<times> real) list"
  routes :: "(address \<times> (nat \<times> bool) option) list"
  open_command :: "Command option"
  can_roam :: bool
  server_layer :: bool
  replaced_by :: "Replacement option"
  ctx_client :: Connection
  ctx_server :: Connection
  quic_connection_id_length :: nat
  connections :: "((address \<times> bytes) \<times> nat) list"
  quic_store :: "ref \<Rightarrow> QuicConnection"
  quic_calls :: "(ref \<times> EngineCall) list"
  next_quic :: ref
  next_wakeup :: nat
  ticks :: nat
  yielded :: "Command list"
  to_child :: "Event list"
  written :: "(nat \<times> bytes) list"

definition self_conn :: "'c QuicLayer \<Rightarrow> Connection" where
  "self_conn l = (if conn l = ClientConn then ctx_client l else ctx_server l)"

definition update_self_conn :: "(Connection \<Rightarrow> Connection) \<Rightarrow> 'c QuicLayer \<Rightarrow> 'c QuicLayer" where
  "update_self_conn f l =
     (if conn l = ClientConn then l\<lparr>ctx_client := f (ctx_client l)\<rparr>
      else l\<lparr>ctx_server := f (ctx_server l)\<rparr>)"

definition lyield :: "Command \<Rightarrow> 'c QuicLayer \<Rightarrow> 'c QuicLayer" where
  "lyield c l = l\<lparr>yielded := yielded l @ [c]\<rparr>"

definition quic_call :: "ref \<Rightarrow> EngineCall \<Rightarrow> 'c QuicLayer \<Rightarrow> 'c QuicLayer" where
  "quic_call q c l = l\<lparr>quic_calls := quic_calls l @ [(q, c)]\<rparr>"

text \<open>Reading \<^verbatim>\<open>self._loop.time()\<close>.\<close>

definition read_time :: "'c layer_env \<Rightarrow> 'c QuicLayer \<Rightarrow> real \<times> 'c QuicLayer" where
  "read_time e l = (loop_time e (ticks l), l\<lparr>ticks := Suc (ticks l)\<rparr>)"

subsection \<open>transmit\<close>

fun send_datagrams :: "(bytes \<times> address) list \<Rightarrow> 'c QuicLayer \<Rightarrow> exn + 'c QuicLayer" where
  "send_datagrams [] l = Inr l"
| "send_datagrams (d # ds) l =
     (if snd d = peername (self_conn l)
      then send_datagrams ds (lyield (SendData (conn l) (fst d)) l)
      else
        (case (case map_of (routes l) (snd d) of None \<Rightarrow> None | Some h \<Rightarrow> h) of
           None \<Rightarrow> send_datagrams ds (lyield (Log (NoRouteTo (conn l) (snd d)) ''info'') l)
         | Some handler \<Rightarrow>
             (if snd handler
              then send_datagrams ds (l\<lparr>written := written l @ [(fst handler, fst d)]\<rparr>)
              else Inl AssertionError)))"

text \<open>
  The second half of \<^verbatim>\<open>transmit\<close>: a new wakeup is requested unless a registered
  deadline is at most the engine's timer.
\<close>

definition rearm_timer :: "'c layer_env \<Rightarrow> ref \<Rightarrow> 'c QuicLayer \<Rightarrow> exn + 'c QuicLayer" where
  "rearm_timer e q l0 =
     (let l = quic_call q GetTimer l0 in
      case get_timer e (quic_store l q) of
        None \<Rightarrow> Inl TypeError
      | Some timer \<Rightarrow>
          (if \<not> list_ex (\<lambda>existing. existing \<le> timer) (map snd (wakeup_commands l))
           then
             (let (now, l1) = read_time e l;
                  command = RequestWakeup (next_wakeup l1) (float_sub e timer now)
              in Inr (lyield command
                        (l1\<lparr>next_wakeup := Suc (next_wakeup l1),
                            wakeup_commands := AList.update command timer (wakeup_commands l1)\<rparr>)))
           else Inr l))"

definition transmit :: "'c layer_env \<Rightarrow> 'c QuicLayer \<Rightarrow> exn + 'c QuicLayer" where
  "transmit e l0 =
     (case quic l0 of
        None \<Rightarrow> Inl AssertionError
      | Some q \<Rightarrow>
          (let (now, l) = read_time e l0;
               (datagrams, eng) = datagrams_to_send e now (quic_store l q);
               l1 = quic_call q (DatagramsToSend now) (l\<lparr>quic_store := (quic_store l)(q := eng)\<rparr>)
           in case send_datagrams datagrams l1 of
                Inl x \<Rightarrow> Inl x
              | Inr l2 \<Rightarrow> rearm_timer e q l2))"

subsection \<open>Handlers of engine events\<close>

text \<open>
  The connection-id handlers of \<^verbatim>\<open>ClientQuicLayer\<close>; those of the base class, which a
  \<^verbatim>\<open>ServerQuicLayer\<close> inherits, do nothing.
\<close>

definition handle_connection_id_issued :: "bytes \<Rightarrow> 'c QuicLayer \<Rightarrow> exn + 'c QuicLayer" where
  "handle_connection_id_issued cid l =
     (if conn l = ClientConn
      then
        (let connection_id = (sockname (ctx_client l), cid) in
         if map_of (connections l) connection_id \<noteq> None then Inl AssertionError
         else Inr (l\<lparr>connections := AList.update connection_id (self_id l) (connections l)\<rparr>))
      else Inr l)"

definition handle_connection_id_retired :: "bytes \<Rightarrow> 'c QuicLayer \<Rightarrow> exn + 'c QuicLayer" where
  "handle_connection_id_retired cid l =
     (if conn l = ClientConn
      then
        (let connection_id = (sockname (ctx_client l), cid) in
         case map_of (connections l) connection_id of
           None \<Rightarrow> Inl KeyError
         | Some owner \<Rightarrow>
             (if owner \<noteq> self_id l then Inl AssertionError
              else Inr (l\<lparr>connections := AList.delete connection_id (connections l)\<rparr>)))
      else Inr l)"

definition handle_connection_terminated ::
  "'c layer_env \<Rightarrow> int \<times> int option \<times> string \<Rightarrow> 'c QuicLayer \<Rightarrow> exn + 'c QuicLayer" where
  "handle_connection_terminated e ev l =
     (case quic l of
        None \<Rightarrow> Inl AssertionError
      | Some q \<Rightarrow>
          (if tls l = None then Inl AssertionError
           else if \<not> terminated (quic_store l q) then Inl AssertionError
           else
             (let reason = (if snd (snd ev) \<noteq> [] then snd (snd ev)
                            else error_code_to_str (base e) (fst ev));
                  l1 = (if \<not> tls_established (self_conn l)
                        then lyield (HookCmd (if conn l = ClientConn then TlsFailedClientHook
                                              else TlsFailedServerHook))
                               (update_self_conn (\<lambda>c. c\<lparr>conn_error := Some reason\<rparr>) l)
                        else l)
              in Inr (lyield (Log (QuicConnectionDestroyed (conn l) reason)
                                (if is_success_error_code (base e) (fst ev)
                                 then ''debug'' else ''info''))
                        (l1\<lparr>quic := None\<rparr>)))))"

text \<open>Whether \<^verbatim>\<open>encode("ascii")\<close> and \<^verbatim>\<open>decode("ascii")\<close> accept a string.\<close>

definition is_ascii :: "string \<Rightarrow> bool" where
  "is_ascii s = list_all (\<lambda>c. (of_char c :: nat) < 128) s"

text \<open>\<^verbatim>\<open>QuicLayer.handle_handshake_completed\<close>, the part shared by both specialisations.\<close>

definition base_handle_handshake_completed ::
  "'c layer_env \<Rightarrow> string option \<Rightarrow> bool \<Rightarrow> bool \<Rightarrow> 'c QuicLayer \<Rightarrow> exn + 'c QuicLayer" where
  "base_handle_handshake_completed e alpn_protocol early_data_accepted session_resumed l =
     (case quic l of
        None \<Rightarrow> Inl AssertionError
      | Some q \<Rightarrow>
          (if tls l = None then Inl AssertionError
           else if tls_established (self_conn l) then Inl AssertionError
           else
             (let eng = quic_store l q;
                  all_certs = (case peer_certificate eng of None \<Rightarrow> [] | Some c \<Rightarrow> [c])
                              @ (case peer_certificate_chain eng of None \<Rightarrow> [] | Some cs \<Rightarrow> cs);
                  (now, l1) = read_time e l
              in case alpn_protocol of
                   None \<Rightarrow> Inl AttributeError
                 | Some proto \<Rightarrow>
                     if \<not> is_ascii proto then Inl UnicodeEncodeError
                     else
                     Inr (lyield (Log (QuicConnectionEstablished (conn l) early_data_accepted
                                         session_resumed) ''debug'')
                           (lyield (HookCmd (if conn l = ClientConn then TlsEstablishedClientHook
                                             else TlsEstablishedServerHook))
                             (update_self_conn
                                (\<lambda>c. c\<lparr>timestamp_tls_setup := Some now,
                                        certificate_list := all_certs,
                                        alpn := Some proto,
                                        cipher := Some (cipher_suite_name eng),
                                        tls_version := Some ''QUIC''\<rparr>) l1))))))"

subsection \<open>start_tls\<close>

definition build_configuration :: "'c QuicLayer \<Rightarrow> exn + QuicConfiguration" where
  "build_configuration l =
     (case tls l of
        None \<Rightarrow> Inl AssertionError
      | Some settings \<Rightarrow>
          (if \<not> list_all is_ascii (alpn_offers (self_conn l)) then Inl UnicodeDecodeError
           else Inr \<lparr>alpn_protocols = alpn_offers (self_conn l),
                     connection_id_length = quic_connection_id_length l,
                     is_client = (conn l = ServerConn),
                     server_name = sni (self_conn l),
                     tls_settings = settings\<rparr>))"

text \<open>
  \<^verbatim>\<open>start_tls\<close> returns whether the engine was created.  Its call
  \<^verbatim>\<open>self.handle_connection_id_issued(...)\<close> only creates a generator, which is never
  run, so nothing is registered there.
\<close>

definition start_tls ::
  "'c layer_env \<Rightarrow> bytes option \<Rightarrow> 'c QuicLayer \<Rightarrow> exn + (bool \<times> 'c QuicLayer)" where
  "start_tls e original_destination_connection_id l =
     (if quic l \<noteq> None then Inl AssertionError
      else if tls l \<noteq> None then Inl AssertionError
      else
        (let l1 = lyield (HookCmd (if conn l = ClientConn then QuicTlsStartClientHook
                                    else QuicTlsStartServerHook)) l
         in case tls_start_addon e (conn l) (yielded l1) of
              None \<Rightarrow> Inr (False, lyield (Log (NoQuicTlsSettings (conn l)) ''error'') l1)
            | Some settings \<Rightarrow>
                (let l2 = l1\<lparr>tls := Some settings\<rparr> in
                 case build_configuration l2 of
                   Inl x \<Rightarrow> Inl x
                 | Inr configuration \<Rightarrow>
                     (let q = next_quic l2;
                          l3 = l2\<lparr>quic := Some q,
                                  quic_store := (quic_store l2)
                                    (q := new_QuicConnection e configuration
                                            original_destination_connection_id),
                                  next_quic := Suc q\<rparr>
                      in Inr (True, lyield (Log (QuicConnectionCreated (conn l)) ''debug'') l3)))))"

subsection \<open>process_events and event_to_child\<close>

text \<open>
  \<^verbatim>\<open>process_events\<close>, \<^verbatim>\<open>event_to_child\<close> and \<^verbatim>\<open>handle_handshake_completed\<close> call each
  other, and a child layer can keep them going for ever (a child that answers every
  failed \<^verbatim>\<open>OpenConnection\<close> with a new one), so they take fuel: every call uses one unit
  and a call without fuel is \<open>OutOfFuel\<close>.  The calls are the values of a datatype, the
  body of each function takes the function that runs a call as a parameter, and \<open>run\<close>
  ties the knot by recursion on the fuel.

  \<open>FilterCommands\<close> is the loop of \<^verbatim>\<open>event_to_child\<close> over the child's commands and
  \<open>DrainEvents\<close> the loop of \<^verbatim>\<open>process_events\<close> over the engine's events.  The flag of
  a call (\<open>under_filter\<close>) says that it was made from inside the base class's generator of
  a \<^verbatim>\<open>ServerQuicLayer\<close>, so that its yields pass that layer's filter once more: there an
  \<^verbatim>\<open>OpenConnection\<close> for the layer's connection, yielded while \<^verbatim>\<open>tls\<close> is \<^verbatim>\<open>None\<close>, meets
  the assertion that no open command is stored.
\<close>

datatype 'c call =
    ProcessEvents bool "'c QuicLayer"
  | DrainEvents bool "'c QuicLayer"
  | HandleHandshakeCompleted bool "string option" bool bool "'c QuicLayer"
  | EventToChild bool Event "'c QuicLayer"
  | FilterCommands bool "Command list" "'c QuicLayer"

type_synonym 'c runner = "'c call \<Rightarrow> exn + 'c QuicLayer"

text \<open>
  The filter that \<^verbatim>\<open>ServerQuicLayer.event_to_child\<close> puts around the base class's: an
  \<^verbatim>\<open>OpenConnection\<close> for the server connection while \<^verbatim>\<open>tls\<close> is \<^verbatim>\<open>None\<close> is stored and
  answered by the layer; every other command is yielded.  A \<^verbatim>\<open>ClientQuicLayer\<close> yields
  every command.
\<close>

definition server_filter ::
  "'c layer_env \<Rightarrow> 'c runner \<Rightarrow> bool \<Rightarrow> Command \<Rightarrow> 'c QuicLayer \<Rightarrow> exn + 'c QuicLayer" where
  "server_filter e run_call uf command l =
     (if conn l = ServerConn \<and> command = OpenConnection ServerConn \<and> tls l = None
      then
        (if open_command l \<noteq> None then Inl AssertionError
         else if uf then Inl AssertionError
         else
           (let l1 = lyield (OpenConnection ServerConn) (l\<lparr>open_command := Some command\<rparr>);
                err = runtime_open (base e) (yielded l1)
            in if truthy err
               then run_call (EventToChild uf (OpenConnectionCompleted command err)
                                (l1\<lparr>open_command := None\<rparr>))
               else
                 (case start_tls e None l1 of
                    Inl x \<Rightarrow> Inl x
                  | Inr r \<Rightarrow>
                      (if \<not> fst r then Inr (lyield (CloseConnection ServerConn) (snd r))
                       else
                         (case quic (snd r) of
                            None \<Rightarrow> Inl AssertionError
                          | Some q \<Rightarrow>
                              (let (now, l2) = read_time e (snd r);
                                   l3 = quic_call q (Connect (peername (self_conn l2)) now)
                                          (l2\<lparr>quic_store := (quic_store l2)
                                               (q := on_connect e (peername (self_conn l2)) now
                                                       (quic_store l2 q))\<rparr>)
                               in run_call (ProcessEvents uf l3)))))))
      else Inr (lyield command l))"

text \<open>The base class's filter for one command of the child.\<close>

definition filter_command ::
  "'c layer_env \<Rightarrow> 'c runner \<Rightarrow> bool \<Rightarrow> Command \<Rightarrow> 'c QuicLayer \<Rightarrow> exn + 'c QuicLayer" where
  "filter_command e run_call uf command l =
     (case command of
        QuicTransmit c q \<Rightarrow>
          (if c = conn l
           then (if quic l = Some q then transmit e l else Inr l)
           else server_filter e run_call uf command l)
      | CloseConnection c \<Rightarrow>
          (if c = conn l
           then
             (case quic l of
                None \<Rightarrow> server_filter e run_call uf command l
              | Some q \<Rightarrow>
                  run_call (ProcessEvents (uf \<or> conn l = ServerConn)
                    (quic_call q (Close None None ''CloseConnection command received.'')
                       (l\<lparr>quic_store := (quic_store l)
                            (q := on_close e ''CloseConnection command received.''
                                    (quic_store l q))\<rparr>))))
           else server_filter e run_call uf command l)
      | _ \<Rightarrow> server_filter e run_call uf command l)"

text \<open>
  One round of the loop of \<^verbatim>\<open>process_events\<close>: \<^verbatim>\<open>next_event\<close> and the handling of the
  event.  \<^verbatim>\<open>self.quic\<close> is read anew in every round, and \<^verbatim>\<open>next_event\<close> on \<^verbatim>\<open>None\<close> is an
  \<^verbatim>\<open>AttributeError\<close>.  After \<^verbatim>\<open>HandshakeCompleted\<close> the child is sent a \<^verbatim>\<open>QuicStart\<close> with
  whatever \<^verbatim>\<open>self.quic\<close> is by then, also \<^verbatim>\<open>None\<close>.
\<close>

definition drain_step ::
  "'c layer_env \<Rightarrow> 'c runner \<Rightarrow> bool \<Rightarrow> 'c QuicLayer \<Rightarrow> exn + 'c QuicLayer" where
  "drain_step e run_call uf l =
     (case quic l of
        None \<Rightarrow> Inl AttributeError
      | Some q \<Rightarrow>
          (case events (quic_store l q) of
             [] \<Rightarrow> transmit e l
           | event # rest \<Rightarrow>
               (let l1 = l\<lparr>quic_store := (quic_store l)(q := (quic_store l q)\<lparr>events := rest\<rparr>)\<rparr>
                in case event of
                     ConnectionIdIssued cid \<Rightarrow>
                       (case handle_connection_id_issued cid l1 of
                          Inl x \<Rightarrow> Inl x
                        | Inr l2 \<Rightarrow> run_call (DrainEvents uf l2))
                   | ConnectionIdRetired cid \<Rightarrow>
                       (case handle_connection_id_retired cid l1 of
                          Inl x \<Rightarrow> Inl x
                        | Inr l2 \<Rightarrow> run_call (DrainEvents uf l2))
                   | ConnectionTerminated error_code frame_type reason_phrase \<Rightarrow>
                       (case handle_connection_terminated e
                               (error_code, frame_type, reason_phrase) l1 of
                          Inl x \<Rightarrow> Inl x
                        | Inr l2 \<Rightarrow>
                            Inr (if connected (self_conn l2)
                                 then lyield (CloseConnection (conn l2)) l2 else l2))
                   | HandshakeCompleted alpn_protocol early_data_accepted session_resumed \<Rightarrow>
                       (case run_call (HandleHandshakeCompleted uf alpn_protocol
                               early_data_accepted session_resumed l1) of
                          Inl x \<Rightarrow> Inl x
                        | Inr l2 \<Rightarrow>
                            (case run_call (EventToChild uf (QuicStart (conn l2) (quic l2)) l2) of
                               Inl x \<Rightarrow> Inl x
                             | Inr l3 \<Rightarrow> run_call (DrainEvents uf l3)))
                   | PingAcknowledged \<Rightarrow> run_call (DrainEvents uf l1)
                   | ProtocolNegotiated \<Rightarrow> run_call (DrainEvents uf l1)
                   | OtherQuicEvent k \<Rightarrow> Inl AssertionError
                   | _ \<Rightarrow>
                       (if \<not> tls_established (self_conn l1) then Inl AssertionError
                        else
                          (case run_call (EventToChild uf (QuicConnectionEvent (conn l1) event) l1) of
                             Inl x \<Rightarrow> Inl x
                           | Inr l2 \<Rightarrow> run_call (DrainEvents uf l2))))))"

definition step :: "'c layer_env \<Rightarrow> 'c runner \<Rightarrow> 'c call \<Rightarrow> exn + 'c QuicLayer" where
  "step e run_call c =
     (case c of
        ProcessEvents uf l \<Rightarrow>
          (case quic l of
             None \<Rightarrow> Inl AssertionError
           | Some q \<Rightarrow> drain_step e run_call uf l)
      | DrainEvents uf l \<Rightarrow> drain_step e run_call uf l
      | HandleHandshakeCompleted uf alpn_protocol early_data_accepted session_resumed l \<Rightarrow>
          (case base_handle_handshake_completed e alpn_protocol early_data_accepted
                  session_resumed l of
             Inl x \<Rightarrow> Inl x
           | Inr l1 \<Rightarrow>
               (if conn l1 = ServerConn
                then
                  (case open_command l1 of
                     None \<Rightarrow> Inr l1
                   | Some command \<Rightarrow>
                       run_call (EventToChild uf (OpenConnectionCompleted command None)
                                   (l1\<lparr>open_command := None\<rparr>)))
                else Inr l1))
      | EventToChild uf event l \<Rightarrow>
          (let r = child_handle_event e event (child_layer l)
           in run_call (FilterCommands uf (fst r)
                          (l\<lparr>child_layer := snd r, to_child := to_child l @ [event]\<rparr>)))
      | FilterCommands uf commands l \<Rightarrow>
          (case commands of
             [] \<Rightarrow> Inr l
           | command # rest \<Rightarrow>
               (case filter_command e run_call uf command l of
                  Inl x \<Rightarrow> Inl x
                | Inr l1 \<Rightarrow> run_call (FilterCommands uf rest l1))))"

primrec run :: "'c layer_env \<Rightarrow> nat \<Rightarrow> 'c call \<Rightarrow> exn + 'c QuicLayer" where
  "run e 0 = (\<lambda>c. Inl OutOfFuel)"
| "run e (Suc n) = step e (run e n)"

definition process_events ::
  "'c layer_env \<Rightarrow> nat \<Rightarrow> bool \<Rightarrow> 'c QuicLayer \<Rightarrow> exn + 'c QuicLayer" where
  "process_events e n uf l = run e n (ProcessEvents uf l)"

text \<open>The loop of \<^verbatim>\<open>process_events\<close>, entered at a call of \<^verbatim>\<open>next_event\<close>.\<close>

definition drain_events ::
  "'c layer_env \<Rightarrow> nat \<Rightarrow> bool \<Rightarrow> 'c QuicLayer \<Rightarrow> exn + 'c QuicLayer" where
  "drain_events e n uf l = run e n (DrainEvents uf l)"

definition event_to_child ::
  "'c layer_env \<Rightarrow> nat \<Rightarrow> bool \<Rightarrow> Event \<Rightarrow> 'c QuicLayer \<Rightarrow> exn + 'c QuicLayer" where
  "event_to_child e n uf event l = run e n (EventToChild uf event l)"

definition handle_handshake_completed ::
  "'c layer_env \<Rightarrow> nat \<Rightarrow> bool \<Rightarrow> string option \<Rightarrow> bool \<Rightarrow> bool \<Rightarrow> 'c QuicLayer
     \<Rightarrow> exn + 'c QuicLayer" where
  "handle_handshake_completed e n uf alpn_protocol early_data_accepted session_resumed l =
     run e n (HandleHandshakeCompleted uf alpn_protocol early_data_accepted session_resumed l)"

subsection \<open>_handle_event\<close>

text \<open>
  \<^verbatim>\<open>isinstance(event, events.DataReceived)\<close>: \<^verbatim>\<open>QuicStart\<close> is a subclass of
  \<^verbatim>\<open>DataReceived\<close>, with empty data.
\<close>

definition as_data_received :: "Event \<Rightarrow> (conn \<times> bytes) option" where
  "as_data_received event =
     (case event of
        DataReceived c data \<Rightarrow> Some (c, data)
      | QuicStart c q \<Rightarrow> Some (c, [])
      | _ \<Rightarrow> None)"

text \<open>\<^verbatim>\<open>QuicLayer._handle_event\<close>.  The fuel is that of the calls it makes.\<close>

definition base_handle_event ::
  "'c layer_env \<Rightarrow> nat \<Rightarrow> Event \<Rightarrow> 'c QuicLayer \<Rightarrow> exn + 'c QuicLayer" where
  "base_handle_event e n event l =
     (case (case as_data_received event of
              Some (c, data) \<Rightarrow>
                (if c = conn l then map_option (\<lambda>q. (q, data)) (quic l) else None)
            | None \<Rightarrow> None) of
        Some (q, data) \<Rightarrow>
          (let (now, l1) = read_time e l;
               l2 = quic_call q (ReceiveDatagram data (peername (self_conn l1)) now)
                      (l1\<lparr>quic_store := (quic_store l1)
                           (q := on_receive_datagram e data (peername (self_conn l1)) now
                                   (quic_store l1 q))\<rparr>)
           in process_events e n False l2)
      | None \<Rightarrow>
          (case (if event = ConnectionClosed (conn l) then quic l else None) of
             Some q \<Rightarrow>
               (let eng = (quic_store l q)\<lparr>terminated := True\<rparr>;
                    close_ev = (case close_event eng of
                                  None \<Rightarrow> (QuicErrorCode_APPLICATION_ERROR e, None,
                                            ''UDP connection closed or timed out.'')
                                | Some ce \<Rightarrow> ce);
                    l1 = l\<lparr>quic_store := (quic_store l)(q := eng\<lparr>close_event := Some close_ev\<rparr>)\<rparr>
                in case handle_connection_terminated e close_ev l1 of
                     Inl x \<Rightarrow> Inl x
                   | Inr l2 \<Rightarrow> event_to_child e n False event l2)
           | None \<Rightarrow>
               (case (case event of
                        Wakeup command \<Rightarrow>
                          map_option (\<lambda>t. (command, t)) (map_of (wakeup_commands l) command)
                      | _ \<Rightarrow> None) of
                  Some (command, timer) \<Rightarrow>
                    (let l1 = l\<lparr>wakeup_commands := AList.delete command (wakeup_commands l)\<rparr>
                     in case quic l1 of
                          None \<Rightarrow> Inr l1
                        | Some q \<Rightarrow>
                            (let (now, l2) = read_time e l1;
                                 l3 = quic_call q (HandleTimer (max timer now))
                                        (l2\<lparr>quic_store := (quic_store l2)
                                             (q := on_handle_timer e (max timer now)
                                                     (quic_store l2 q))\<rparr>)
                             in process_events e n False l3))
                | None \<Rightarrow> event_to_child e n False event l)))"

text \<open>\<^verbatim>\<open>ServerQuicLayer._handle_event\<close>.\<close>

definition server_handle_event ::
  "'c layer_env \<Rightarrow> nat \<Rightarrow> Event \<Rightarrow> 'c QuicLayer \<Rightarrow> exn + 'c QuicLayer" where
  "server_handle_event e n event l =
     (case (if event = ConnectionClosed (conn l) then open_command l else None) of
        Some command \<Rightarrow>
          event_to_child e n False
            (OpenConnectionCompleted command
               (Some (if tls l = None then ''TLS initialization failed''
                      else ''Connection closed before connect'')))
            (l\<lparr>open_command := None\<rparr>)
      | None \<Rightarrow> base_handle_event e n event l)"

subsection \<open>ClientQuicLayer: the first datagram\<close>

text \<open>
  \<^verbatim>\<open>x in g\<close> for a generator \<open>g\<close>: the generator is advanced up to and including the
  first item equal to \<open>x\<close>, or to its end.  The result is the truth value and what is
  left of the generator.
\<close>

fun gen_contains :: "'a \<Rightarrow> 'a list \<Rightarrow> bool \<times> 'a list" where
  "gen_contains x [] = (False, [])"
| "gen_contains x (y # ys) = (if x = y then (True, ys) else gen_contains x ys)"

definition replace_layer ::
  "'c layer_env \<Rightarrow> Replacement \<Rightarrow> Event \<Rightarrow> 'c QuicLayer \<Rightarrow> 'c QuicLayer" where
  "replace_layer e replacement_layer first_data_event l =
     l\<lparr>replaced_by := Some replacement_layer,
       yielded := yielded l @ replacement_yields e replacement_layer Start
                   @ replacement_yields e replacement_layer first_data_event\<rparr>"

definition start_client_tls ::
  "'c layer_env \<Rightarrow> bytes \<Rightarrow> QuicHeader \<Rightarrow> 'c QuicLayer
     \<Rightarrow> exn + (LogMessage option \<times> 'c QuicLayer)" where
  "start_client_tls e data header l =
     (if length data < 1200 \<or> packet_type header \<noteq> PACKET_TYPE_INITIAL e
      then Inr (Some (LogText ''Invalid handshake received.''), l)
      else
        (case quic_parse_client_hello e data of
           Inl msg \<Rightarrow> Inr (Some (CannotParseClientHello msg data), l)
         | Inr client_hello \<Rightarrow>
             (let l1 = lyield (HookCmd TlsClienthelloHook)
                         (l\<lparr>ctx_client := (ctx_client l)
                               \<lparr>sni := hello_sni client_hello,
                                alpn_offers := hello_alpn_protocols client_hello\<rparr>\<rparr>);
                  ignore_connection = fst (clienthello_addon e client_hello);
                  establish_server_tls_first = snd (clienthello_addon e client_hello)
              in if ignore_connection
                 then Inr (None, replace_layer e IgnoredUDPLayer (DataReceived (conn l) data) l1)
                 else
                   (let l2 = (if establish_server_tls_first \<and> \<not> tls_established (ctx_server l1)
                              then
                                (let l1a = (if server_layer l1
                                            then lyield (OpenConnection ServerConn) l1 else l1);
                                     err = (if server_layer l1
                                            then runtime_open (base e) (yielded l1a)
                                            else Some ''No server QUIC available.'')
                                 in case (if truthy err then err else None) of
                                      Some msg \<Rightarrow>
                                        lyield (Log (UnableToEstablishServerQuic msg) ''info'') l1a
                                    | None \<Rightarrow> l1a)
                              else l1)
                    in case start_tls e (Some (destination_cid header)) l2 of
                         Inl x \<Rightarrow> Inl x
                       | Inr r \<Rightarrow>
                           (if \<not> fst r
                            then Inr (Some (LogText ''TLS initialization failed.''), snd r)
                            else Inr (None, snd r))))))"

text \<open>
  \<^verbatim>\<open>datagram_received\<close>.  \<^verbatim>\<open>supported_versions\<close> is a generator expression: the
  membership test consumes it, and what is passed on to
  \<^verbatim>\<open>encode_quic_version_negotiation\<close> is the generator as the test left it.
\<close>

definition datagram_received ::
  "'c layer_env \<Rightarrow> bytes \<Rightarrow> 'c QuicLayer \<Rightarrow> exn + (LogMessage option \<times> 'c QuicLayer)" where
  "datagram_received e data l =
     (case pull_quic_header e data (quic_connection_id_length l) of
        None \<Rightarrow> Inr (Some (LogText ''Invalid QUIC datagram received.''), l)
      | Some header \<Rightarrow>
          (let supported_versions =
                 filter (\<lambda>v. v \<noteq> QuicProtocolVersion_NEGOTIATION e) (QuicProtocolVersion e);
               tested = (case version header of
                           None \<Rightarrow> (False, supported_versions)
                         | Some v \<Rightarrow>
                             (let r = gen_contains v supported_versions
                              in (\<not> fst r, snd r)))
           in if fst tested
              then
                (case encode_quic_version_negotiation e (destination_cid header)
                        (source_cid header) (PyGenerator (snd tested)) of
                   Inl x \<Rightarrow> Inl x
                 | Inr packet \<Rightarrow> Inr (None, lyield (SendData (conn l) packet) l))
              else
                (case map_of (connections l)
                        (sockname (ctx_client l), destination_cid header) of
                   None \<Rightarrow> start_client_tls e data header l
                 | Some target_layer \<Rightarrow>
                     (if \<not> can_roam l
                      then Inr (Some (LogText ''Connection cannot roam.''), l)
                      else Inr (None, replace_layer e (QuicRoamingLayer target_layer)
                                        (DataReceived (conn l) data) l)))))"

text \<open>\<^verbatim>\<open>ClientQuicLayer._handle_event\<close>.\<close>

definition client_handle_event ::
  "'c layer_env \<Rightarrow> nat \<Rightarrow> Event \<Rightarrow> 'c QuicLayer \<Rightarrow> exn + 'c QuicLayer" where
  "client_handle_event e n event l =
     (case (case as_data_received event of
              Some (c, data) \<Rightarrow> (if c = conn l \<and> tls l = None then Some data else None)
            | None \<Rightarrow> None) of
        Some data \<Rightarrow>
          (case datagram_received e data l of
             Inl x \<Rightarrow> Inl x
           | Inr r \<Rightarrow>
               (case fst r of
                  Some err \<Rightarrow> Inr (lyield (Log err ''info'') (snd r))
                | None \<Rightarrow> base_handle_event e n event (snd r)))
      | None \<Rightarrow> base_handle_event e n event l)"

text \<open>\<^verbatim>\<open>_handle_event\<close> of the layer's class.\<close>

definition layer_handle_event ::
  "'c layer_env \<Rightarrow> nat \<Rightarrow> Event \<Rightarrow> 'c QuicLayer \<Rightarrow> exn + 'c QuicLayer" where
  "layer_handle_event e n event l =
     (if conn l = ServerConn then server_handle_event e n event l
      else client_handle_event e n event l)"

subsection \<open>The wakeup registry\<close>




subsection \<open>Runs of events that need no child\<close>

text \<open>
  The events that the loop of \<^verbatim>\<open>process_events\<close> handles without the child layer and
  without leaving the loop, and their handling, one after the other.
\<close>

definition childless :: "QuicEvent \<Rightarrow> bool" where
  "childless event =
     (case event of
        ConnectionIdIssued cid \<Rightarrow> True
      | ConnectionIdRetired cid \<Rightarrow> True
      | PingAcknowledged \<Rightarrow> True
      | ProtocolNegotiated \<Rightarrow> True
      | _ \<Rightarrow> False)"

definition handle_childless :: "QuicEvent \<Rightarrow> 'c QuicLayer \<Rightarrow> exn + 'c QuicLayer" where
  "handle_childless event l =
     (case event of
        ConnectionIdIssued cid \<Rightarrow> handle_connection_id_issued cid l
      | ConnectionIdRetired cid \<Rightarrow> handle_connection_id_retired cid l
      | _ \<Rightarrow> Inr l)"

fun handle_all_childless :: "QuicEvent list \<Rightarrow> 'c QuicLayer \<Rightarrow> exn + 'c QuicLayer" where
  "handle_all_childless [] l = Inr l"
| "handle_all_childless (event # rest) l =
     (case handle_childless event l of
        Inl x \<Rightarrow> Inl x
      | Inr l1 \<Rightarrow> handle_all_childless rest l1)"

definition issued_count :: "QuicEvent list \<Rightarrow> nat" where
  "issued_count evs = length (filter (\<lambda>ev. case ev of ConnectionIdIssued cid \<Rightarrow> True | _ \<Rightarrow> False) evs)"

definition retired_count :: "QuicEvent list \<Rightarrow> nat" where
  "retired_count evs = length (filter (\<lambda>ev. case ev of ConnectionIdRetired cid \<Rightarrow> True | _ \<Rightarrow> False) evs)"

section \<open>Concrete layers\<close>

text \<open>
  A concrete environment for the layers.  The child is silent, the clock shows the number
  of readings (small whole numbers, on which the subtraction of floats is exact), the
  addons supply TLS settings, the engine does not react to what it is
  fed and always shows the timer 10.  The header of a datagram is read in a toy format:
  the first byte is the version (\<open>s\<close> for a short header), the next bytes are the
  destination connection id and the rest is the source connection id.  The version
  negotiation packet is built by iterating over the versions it is handed.
\<close>

definition demo_pull_quic_header :: "bytes \<Rightarrow> nat \<Rightarrow> QuicHeader option" where
  "demo_pull_quic_header data k =
     (case data of
        [] \<Rightarrow> None
      | b # rest \<Rightarrow>
          Some \<lparr>version = (if b = CHR ''s'' then None else Some (of_char b)),
                packet_type = 0,
                destination_cid = take k rest,
                source_cid = drop k rest\<rparr>)"

definition demo_encode :: "bytes \<Rightarrow> bytes \<Rightarrow> int iterable \<Rightarrow> exn + bytes" where
  "demo_encode scid dcid vs =
     Inr (''N'' @ dcid @ ''/'' @ scid @ ''/''
          @ concat (map (\<lambda>v. ''v'' @ hex_int v)
                      (case vs of PyList xs \<Rightarrow> xs | PyGenerator xs \<Rightarrow> xs)))"

definition demo_layer_env :: "nat layer_env" where
  "demo_layer_env =
     \<lparr>base = demo_env,
      child_handle_event = (\<lambda>ev c. ([], Suc c)),
      loop_time = (\<lambda>k. real k),
      float_sub = (\<lambda>a b. a - b),
      tls_start_addon = (\<lambda>c cs. Some 7),
      clienthello_addon = (\<lambda>h. (False, False)),
      new_QuicConnection = (\<lambda>cfg odcid. demo_engine),
      on_receive_datagram = (\<lambda>d a t q. q),
      on_handle_timer = (\<lambda>t q. q),
      on_connect = (\<lambda>a t q. q),
      on_close = (\<lambda>r q. q),
      datagrams_to_send = (\<lambda>t q. ([], q)),
      get_timer = (\<lambda>q. Some 10),
      QuicErrorCode_APPLICATION_ERROR = 12,
      pull_quic_header = demo_pull_quic_header,
      QuicProtocolVersion = [0, 1, 4278190109, 4278190110, 4278190111, 4278190112],
      QuicProtocolVersion_NEGOTIATION = 0,
      encode_quic_version_negotiation = demo_encode,
      PACKET_TYPE_INITIAL = 0,
      quic_parse_client_hello = (\<lambda>d. Inl ''No ClientHello returned.''),
      replacement_yields = (\<lambda>r ev. [])\<rparr>"

definition demo_connection :: "address \<Rightarrow> Connection" where
  "demo_connection a =
     \<lparr>peername = a, sockname = (''127.0.0.1'', 443), connected = True, conn_error = None,
      timestamp_tls_setup = None, sni = None, alpn = None, alpn_offers = [], cipher = None,
      tls_version = None, certificate_list = []\<rparr>"

text \<open>A layer as its constructor leaves it: no engine, no TLS settings, nothing registered.\<close>

definition demo_layer :: "conn \<Rightarrow> nat QuicLayer" where
  "demo_layer c =
     \<lparr>self_id = 1, conn = c, child_layer = 0, quic = None, tls = None, wakeup_commands = [],
      routes = [], open_command = None, can_roam = False, server_layer = False,
      replaced_by = None,
      ctx_client = demo_connection (''10.0.0.1'', 5000),
      ctx_server = demo_connection (''10.0.0.2'', 443),
      quic_connection_id_length = 2, connections = [], quic_store = (\<lambda>q. demo_engine),
      quic_calls = [], next_quic = 0, next_wakeup = 0, ticks = 0, yielded = [], to_child = [],
      written = []\<rparr>"

text \<open>The same layer after \<^verbatim>\<open>start_tls\<close>: engine 0, whose queue holds the given events.\<close>

definition demo_layer_started :: "conn \<Rightarrow> QuicEvent list \<Rightarrow> nat QuicLayer" where
  "demo_layer_started c evs =
     (demo_layer c)\<lparr>quic := Some 0, tls := Some 7, next_quic := 1,
                    quic_store := (\<lambda>q. demo_engine\<lparr>events := evs\<rparr>)\<rparr>"




text \<open>
  A started client layer whose engine has terminated, with four events queued; the same
  layer once the first two events are handled; and that layer after \<^verbatim>\<open>process_events\<close>.
\<close>

definition demo_queue :: "QuicEvent list" where
  "demo_queue = [ConnectionIdIssued ''c1'', PingAcknowledged,
                 ConnectionTerminated 0 None ''bye'', PingAcknowledged]"

definition demo_layer_queued :: "nat QuicLayer" where
  "demo_layer_queued =
     (demo_layer_started ClientConn [])
       \<lparr>quic_store := (\<lambda>q. demo_engine\<lparr>events := demo_queue, terminated := True\<rparr>)\<rparr>"

definition demo_layer_drained :: "nat QuicLayer" where
  "demo_layer_drained =
     demo_layer_queued
       \<lparr>connections := [(((''127.0.0.1'', 443), ''c1''), 1)],
        quic_store := (quic_store demo_layer_queued)
          (0 := (quic_store demo_layer_queued 0)\<lparr>events := drop 2 demo_queue\<rparr>)\<rparr>"

definition demo_layer_closed :: "nat QuicLayer" where
  "demo_layer_closed =
     (case process_events demo_layer_env 1 False demo_layer_drained of
        Inr l \<Rightarrow> l
      | Inl x \<Rightarrow> demo_layer ClientConn)"
section \<open>Properties of QuicStream\<close>














section \<open>Properties of the relay\<close>

lemma mark_ended_total:
  "\<not> has_ended st fc \<Longrightarrow> \<exists>r. mark_ended e fc err st s = Inr r"
  by (simp add: has_ended_def mark_ended_def Let_def split: option.splits)

lemma stream_mark_ended_total:
  "\<not> has_ended st fc \<Longrightarrow> \<exists>l'. stream_mark_ended e fc err st l = Inr l'"
  using mark_ended_total[of st fc e err "gen l"]
  by (auto simp: stream_mark_ended_def)

lemma forward_stream_data_total:
  "\<exists>l'. forward_stream_data e sid data es fc pq pc l = Inr l'"
proof -
  obtain st l1 where g: "get_or_create_stream e sid l = (st, l1)" by fastforce
  show ?thesis
  proof (cases "has_ended st fc")
    case True
    with g show ?thesis by (simp add: forward_stream_data_def)
  next
    case False
    obtain l2 where "stream_mark_ended e fc None st (send_stream_payload e st data es fc pq l1) = Inr l2"
      using stream_mark_ended_total[OF False] by blast
    with False g show ?thesis by (cases es) (auto simp add: forward_stream_data_def Let_def)
  qed
qed

lemma forward_stream_reset_total:
  "\<exists>l'. forward_stream_reset e sid code fc pq pc l = Inr l'"
proof -
  obtain st l1 where g: "get_or_create_stream e sid l = (st, l1)" by fastforce
  show ?thesis
  proof (cases "has_ended st fc")
    case True
    with g show ?thesis by (simp add: forward_stream_reset_def)
  next
    case False
    obtain l2 where "stream_mark_ended e fc (Some (error_code_to_str e code)) st
        (engine_call pq (ResetStream (stream_id st) code) l1) = Inr l2"
      using stream_mark_ended_total[OF False] by blast
    with False g show ?thesis by (simp add: forward_stream_reset_def Let_def)
  qed
qed

lemma handle_quic_event_total: "\<exists>l'. handle_quic_event e ev fc l = Inr l'"
proof (cases "if fc then quic_server l else quic_client l")
  case None
  then show ?thesis by (simp add: handle_quic_event_def)
next
  case (Some pq)
  then show ?thesis
    using forward_stream_data_total forward_stream_reset_total
    by (cases ev) (simp_all add: handle_quic_event_def)
qed

lemma get_or_create_stream_bfc:
  "get_or_create_stream e sid (l\<lparr>buffer_from_client := x\<rparr>) =
     (fst (get_or_create_stream e sid l), (snd (get_or_create_stream e sid l))\<lparr>buffer_from_client := x\<rparr>)"
  by (simp add: get_or_create_stream_def Let_def yield_hook_def split: option.splits prod.splits)

lemma stream_mark_ended_bfc:
  "stream_mark_ended e fc err st (l\<lparr>buffer_from_client := x\<rparr>) =
     map_sum id (\<lambda>l'. l'\<lparr>buffer_from_client := x\<rparr>) (stream_mark_ended e fc err st l)"
  by (simp add: stream_mark_ended_def split: sum.splits)

lemma send_stream_payload_bfc:
  "send_stream_payload e st data es fc pq (l\<lparr>buffer_from_client := x\<rparr>) =
     (send_stream_payload e st data es fc pq l)\<lparr>buffer_from_client := x\<rparr>"
  by (simp add: send_stream_payload_def engine_call_def Let_def split: option.splits prod.splits)

lemma forward_datagram_bfc:
  "forward_datagram e data fc pq (l\<lparr>buffer_from_client := x\<rparr>) =
     (forward_datagram e data fc pq l)\<lparr>buffer_from_client := x\<rparr>"
  by (simp add: forward_datagram_def engine_call_def Let_def split: option.splits prod.splits)

lemma yield_bfc: "yield c (l\<lparr>buffer_from_client := x\<rparr>) = (yield c l)\<lparr>buffer_from_client := x\<rparr>"
  by (simp add: yield_def)

lemma engine_call_bfc: "engine_call q c (l\<lparr>buffer_from_client := x\<rparr>) = (engine_call q c l)\<lparr>buffer_from_client := x\<rparr>"
  by (simp add: engine_call_def)

lemma forward_stream_data_bfc:
  "forward_stream_data e sid data es fc pq pc (l\<lparr>buffer_from_client := x\<rparr>) =
     map_sum id (\<lambda>l'. l'\<lparr>buffer_from_client := x\<rparr>) (forward_stream_data e sid data es fc pq pc l)"
  by (simp add: forward_stream_data_def get_or_create_stream_bfc stream_mark_ended_bfc
        send_stream_payload_bfc yield_bfc Let_def split_beta split: sum.splits)

lemma forward_stream_reset_bfc:
  "forward_stream_reset e sid code fc pq pc (l\<lparr>buffer_from_client := x\<rparr>) =
     map_sum id (\<lambda>l'. l'\<lparr>buffer_from_client := x\<rparr>) (forward_stream_reset e sid code fc pq pc l)"
  by (simp add: forward_stream_reset_def get_or_create_stream_bfc stream_mark_ended_bfc
        engine_call_bfc yield_bfc Let_def split_beta split: sum.splits)

lemma handle_quic_event_bfc:
  "(if fc then quic_server l else quic_client l) \<noteq> None \<Longrightarrow>
   handle_quic_event e ev fc (l\<lparr>buffer_from_client := x\<rparr>) =
     map_sum id (\<lambda>l'. l'\<lparr>buffer_from_client := x\<rparr>) (handle_quic_event e ev fc l)"
  by (cases ev)
     (auto simp: handle_quic_event_def forward_stream_data_bfc forward_stream_reset_bfc
        forward_datagram_bfc yield_bfc)

lemma get_or_create_stream_frame:
  "get_or_create_stream e sid l = (st, l1) \<Longrightarrow>
     quic_client l1 = quic_client l \<and> quic_server l1 = quic_server l \<and>
     buffer_from_client l1 = buffer_from_client l \<and> buffer_from_server l1 = buffer_from_server l \<and>
     udp_flow l1 = udp_flow l \<and> engine_calls l1 = engine_calls l \<and> engines l1 = engines l \<and>
     handle_event_state l1 = handle_event_state l \<and>
     client_connected l1 = client_connected l \<and> server_connected l1 = server_connected l"
  by (auto simp: get_or_create_stream_def Let_def yield_hook_def split: option.splits prod.splits)

lemma stream_mark_ended_frame:
  "stream_mark_ended e fc err st l = Inr l1 \<Longrightarrow>
     quic_client l1 = quic_client l \<and> quic_server l1 = quic_server l \<and>
     buffer_from_client l1 = buffer_from_client l \<and> buffer_from_server l1 = buffer_from_server l \<and>
     udp_flow l1 = udp_flow l \<and> engine_calls l1 = engine_calls l \<and> engines l1 = engines l \<and>
     handle_event_state l1 = handle_event_state l \<and>
     client_connected l1 = client_connected l \<and> server_connected l1 = server_connected l"
  by (auto simp: stream_mark_ended_def split: sum.splits)

lemma send_stream_payload_frame:
  "send_stream_payload e st data es fc pq l = l1 \<Longrightarrow>
     quic_client l1 = quic_client l \<and> quic_server l1 = quic_server l \<and>
     buffer_from_client l1 = buffer_from_client l \<and> buffer_from_server l1 = buffer_from_server l \<and>
     udp_flow l1 = udp_flow l \<and> engines l1 = engines l \<and>
     handle_event_state l1 = handle_event_state l \<and> streams_by_id l1 = streams_by_id l \<and>
     client_connected l1 = client_connected l \<and> server_connected l1 = server_connected l"
  by (auto simp: send_stream_payload_def engine_call_def Let_def split: option.splits prod.splits)

lemma forward_datagram_frame:
  "forward_datagram e data fc pq l = l1 \<Longrightarrow>
     quic_client l1 = quic_client l \<and> quic_server l1 = quic_server l \<and>
     buffer_from_client l1 = buffer_from_client l \<and> buffer_from_server l1 = buffer_from_server l \<and>
     udp_flow l1 = udp_flow l \<and> engines l1 = engines l \<and>
     handle_event_state l1 = handle_event_state l \<and> streams_by_id l1 = streams_by_id l \<and>
     client_connected l1 = client_connected l \<and> server_connected l1 = server_connected l"
  by (auto simp: forward_datagram_def engine_call_def Let_def split: option.splits prod.splits)

lemma forward_stream_data_frame:
  assumes "forward_stream_data e sid data es fc pq pc l = Inr l1"
  shows "quic_client l1 = quic_client l \<and> quic_server l1 = quic_server l \<and>
     buffer_from_client l1 = buffer_from_client l \<and> buffer_from_server l1 = buffer_from_server l \<and>
     udp_flow l1 = udp_flow l \<and> engines l1 = engines l \<and>
     handle_event_state l1 = handle_event_state l \<and>
     client_connected l1 = client_connected l \<and> server_connected l1 = server_connected l"
proof -
  obtain st la where g: "get_or_create_stream e sid l = (st, la)" by fastforce
  note fa = get_or_create_stream_frame[OF g]
  let ?lb = "send_stream_payload e st data es fc pq la"
  note fb = send_stream_payload_frame[OF refl, of e st data es fc pq la]
  show ?thesis
  proof (cases "has_ended st fc")
    case True
    with assms g fa show ?thesis
      by (auto simp: forward_stream_data_def yield_def)
  next
    case False
    show ?thesis
    proof (cases es)
      case True
      with assms g False obtain lc where
        c: "stream_mark_ended e fc None st ?lb = Inr lc" and l1: "l1 = yield (QuicTransmit pc pq) lc"
        by (auto simp: forward_stream_data_def Let_def split: sum.splits)
      from stream_mark_ended_frame[OF c] fa fb l1 show ?thesis
        by (simp add: yield_def)
    next
      case es: False
      with assms g False have "l1 = yield (QuicTransmit pc pq) ?lb"
        by (auto simp: forward_stream_data_def Let_def)
      with fa fb show ?thesis by (simp add: yield_def)
    qed
  qed
qed

lemma forward_stream_reset_frame:
  assumes "forward_stream_reset e sid code fc pq pc l = Inr l1"
  shows "quic_client l1 = quic_client l \<and> quic_server l1 = quic_server l \<and>
     buffer_from_client l1 = buffer_from_client l \<and> buffer_from_server l1 = buffer_from_server l \<and>
     udp_flow l1 = udp_flow l \<and> engines l1 = engines l \<and>
     handle_event_state l1 = handle_event_state l \<and>
     client_connected l1 = client_connected l \<and> server_connected l1 = server_connected l"
proof -
  obtain st la where g: "get_or_create_stream e sid l = (st, la)" by fastforce
  note fa = get_or_create_stream_frame[OF g]
  show ?thesis
  proof (cases "has_ended st fc")
    case True
    with assms g fa show ?thesis
      by (auto simp: forward_stream_reset_def yield_def)
  next
    case False
    with assms g obtain lc where
      c: "stream_mark_ended e fc (Some (error_code_to_str e code)) st
            (engine_call pq (ResetStream (stream_id st) code) la) = Inr lc"
      and l1: "l1 = yield (QuicTransmit pc pq) lc"
      by (auto simp: forward_stream_reset_def Let_def split: sum.splits)
    from stream_mark_ended_frame[OF c] fa l1 show ?thesis
      by (simp add: yield_def engine_call_def)
  qed
qed

lemma handle_quic_event_frame:
  assumes "handle_quic_event e ev fc l = Inr l1"
    and "(if fc then quic_server l else quic_client l) \<noteq> None"
  shows "quic_client l1 = quic_client l \<and> quic_server l1 = quic_server l \<and>
     buffer_from_client l1 = buffer_from_client l \<and> buffer_from_server l1 = buffer_from_server l \<and>
     udp_flow l1 = udp_flow l \<and> engines l1 = engines l \<and>
     handle_event_state l1 = handle_event_state l \<and>
     client_connected l1 = client_connected l \<and> server_connected l1 = server_connected l"
proof -
  from assms(2) obtain pq where pq: "(if fc then quic_server l else quic_client l) = Some pq" by blast
  show ?thesis
  proof (cases ev)
    case (DatagramFrameReceived data)
    with assms(1) pq forward_datagram_frame[OF refl, of e data fc pq l] show ?thesis
      by (auto simp: handle_quic_event_def yield_def)
  next
    case (StreamDataReceived sid data es)
    with assms(1) pq show ?thesis
      using forward_stream_data_frame by (simp add: handle_quic_event_def)
  next
    case (StreamReset sid code)
    with assms(1) pq show ?thesis
      using forward_stream_reset_frame by (simp add: handle_quic_event_def)
  qed (use assms(1) pq in \<open>auto simp: handle_quic_event_def yield_def\<close>)
qed

lemma get_or_create_stream_bfs:
  "get_or_create_stream e sid (l\<lparr>buffer_from_server := x\<rparr>) =
     (fst (get_or_create_stream e sid l), (snd (get_or_create_stream e sid l))\<lparr>buffer_from_server := x\<rparr>)"
  by (simp add: get_or_create_stream_def Let_def yield_hook_def split: option.splits prod.splits)

lemma stream_mark_ended_bfs:
  "stream_mark_ended e fc err st (l\<lparr>buffer_from_server := x\<rparr>) =
     map_sum id (\<lambda>l'. l'\<lparr>buffer_from_server := x\<rparr>) (stream_mark_ended e fc err st l)"
  by (simp add: stream_mark_ended_def split: sum.splits)

lemma send_stream_payload_bfs:
  "send_stream_payload e st data es fc pq (l\<lparr>buffer_from_server := x\<rparr>) =
     (send_stream_payload e st data es fc pq l)\<lparr>buffer_from_server := x\<rparr>"
  by (simp add: send_stream_payload_def engine_call_def Let_def split: option.splits prod.splits)

lemma forward_datagram_bfs:
  "forward_datagram e data fc pq (l\<lparr>buffer_from_server := x\<rparr>) =
     (forward_datagram e data fc pq l)\<lparr>buffer_from_server := x\<rparr>"
  by (simp add: forward_datagram_def engine_call_def Let_def split: option.splits prod.splits)

lemma yield_bfs: "yield c (l\<lparr>buffer_from_server := x\<rparr>) = (yield c l)\<lparr>buffer_from_server := x\<rparr>"
  by (simp add: yield_def)

lemma engine_call_bfs: "engine_call q c (l\<lparr>buffer_from_server := x\<rparr>) = (engine_call q c l)\<lparr>buffer_from_server := x\<rparr>"
  by (simp add: engine_call_def)

lemma forward_stream_data_bfs:
  "forward_stream_data e sid data es fc pq pc (l\<lparr>buffer_from_server := x\<rparr>) =
     map_sum id (\<lambda>l'. l'\<lparr>buffer_from_server := x\<rparr>) (forward_stream_data e sid data es fc pq pc l)"
  by (simp add: forward_stream_data_def get_or_create_stream_bfs stream_mark_ended_bfs
        send_stream_payload_bfs yield_bfs Let_def split_beta split: sum.splits)

lemma forward_stream_reset_bfs:
  "forward_stream_reset e sid code fc pq pc (l\<lparr>buffer_from_server := x\<rparr>) =
     map_sum id (\<lambda>l'. l'\<lparr>buffer_from_server := x\<rparr>) (forward_stream_reset e sid code fc pq pc l)"
  by (simp add: forward_stream_reset_def get_or_create_stream_bfs stream_mark_ended_bfs
        engine_call_bfs yield_bfs Let_def split_beta split: sum.splits)

lemma handle_quic_event_bfs:
  "(if fc then quic_server l else quic_client l) \<noteq> None \<Longrightarrow>
   handle_quic_event e ev fc (l\<lparr>buffer_from_server := x\<rparr>) =
     map_sum id (\<lambda>l'. l'\<lparr>buffer_from_server := x\<rparr>) (handle_quic_event e ev fc l)"
  by (cases ev)
     (auto simp: handle_quic_event_def forward_stream_data_bfs forward_stream_reset_bfs
        forward_datagram_bfs yield_bfs)

lemma replay_bfc:
  "(if fc then quic_server l else quic_client l) \<noteq> None \<Longrightarrow>
   replay e fc evs (l\<lparr>buffer_from_client := x\<rparr>) =
     map_sum id (\<lambda>l'. l'\<lparr>buffer_from_client := x\<rparr>) (replay e fc evs l)"
proof (induction evs arbitrary: l)
  case Nil
  then show ?case by simp
next
  case (Cons ev evs)
  obtain l1 where h: "handle_quic_event e ev fc l = Inr l1"
    using handle_quic_event_total by blast
  from handle_quic_event_frame[OF h Cons.prems] Cons.prems
  have "(if fc then quic_server l1 else quic_client l1) \<noteq> None" by auto
  from Cons.IH[OF this] h Cons.prems show ?case
    by (simp add: handle_quic_event_bfc)
qed

lemma replay_bfs:
  "(if fc then quic_server l else quic_client l) \<noteq> None \<Longrightarrow>
   replay e fc evs (l\<lparr>buffer_from_server := x\<rparr>) =
     map_sum id (\<lambda>l'. l'\<lparr>buffer_from_server := x\<rparr>) (replay e fc evs l)"
proof (induction evs arbitrary: l)
  case Nil
  then show ?case by simp
next
  case (Cons ev evs)
  obtain l1 where h: "handle_quic_event e ev fc l = Inr l1"
    using handle_quic_event_total by blast
  from handle_quic_event_frame[OF h Cons.prems] Cons.prems
  have "(if fc then quic_server l1 else quic_client l1) \<noteq> None" by auto
  from Cons.IH[OF this] h Cons.prems show ?case
    by (simp add: handle_quic_event_bfs)
qed

lemma replay_total: "\<exists>l'. replay e fc evs l = Inr l'"
proof (induction evs arbitrary: l)
  case Nil
  then show ?case by simp
next
  case (Cons ev evs)
  obtain l1 where h: "handle_quic_event e ev fc l = Inr l1"
    using handle_quic_event_total by blast
  with Cons.IH[of l1] show ?case by simp
qed

lemma buffer_phase_client:
  "handle_event_state l = StateReady \<Longrightarrow> quic_server l = None \<Longrightarrow>
   relay_handle_events e (map (QuicConnectionEvent ClientConn) evs @ rest) l =
   relay_handle_events e rest (l\<lparr>buffer_from_client := buffer_from_client l @ evs\<rparr>)"
proof (induction evs arbitrary: l)
  case Nil
  then show ?case by simp
next
  case (Cons ev evs)
  let ?l1 = "l\<lparr>buffer_from_client := buffer_from_client l @ [ev]\<rparr>"
  have "relay_handle_event e (QuicConnectionEvent ClientConn ev) l = Inr ?l1"
    using Cons.prems by (simp add: relay_handle_event_def state_ready_def handle_quic_event_def)
  moreover have "handle_event_state ?l1 = StateReady" "quic_server ?l1 = None"
    using Cons.prems by simp_all
  ultimately show ?case using Cons.IH[of ?l1] by simp
qed

lemma buffer_phase_server:
  "handle_event_state l = StateReady \<Longrightarrow> quic_client l = None \<Longrightarrow>
   relay_handle_events e (map (QuicConnectionEvent ServerConn) evs @ rest) l =
   relay_handle_events e rest (l\<lparr>buffer_from_server := buffer_from_server l @ evs\<rparr>)"
proof (induction evs arbitrary: l)
  case Nil
  then show ?case by simp
next
  case (Cons ev evs)
  let ?l1 = "l\<lparr>buffer_from_server := buffer_from_server l @ [ev]\<rparr>"
  have "relay_handle_event e (QuicConnectionEvent ServerConn ev) l = Inr ?l1"
    using Cons.prems by (simp add: relay_handle_event_def state_ready_def handle_quic_event_def)
  moreover have "handle_event_state ?l1 = StateReady" "quic_client ?l1 = None"
    using Cons.prems by simp_all
  ultimately show ?case using Cons.IH[of ?l1] by simp
qed

lemma replay_phase_client:
  assumes "handle_event_state l = StateReady" "quic_server l = None"
  shows "relay_handle_events e (map (QuicConnectionEvent ClientConn) evs @ [QuicStart ServerConn (Some q)]) l =
     (case replay e True (buffer_from_client l @ evs) (l\<lparr>quic_server := Some q\<rparr>) of
        Inl x \<Rightarrow> Inl x
      | Inr l' \<Rightarrow> Inr (l'\<lparr>buffer_from_client := []\<rparr>))"
proof -
  let ?b = "buffer_from_client l @ evs"
  obtain l' where r: "replay e True ?b (l\<lparr>quic_server := Some q\<rparr>) = Inr l'"
    using replay_total by blast
  have eq: "l\<lparr>buffer_from_client := ?b, quic_server := Some q\<rparr>
          = l\<lparr>quic_server := Some q, buffer_from_client := ?b\<rparr>" by simp
  have "replay e True ?b (l\<lparr>buffer_from_client := ?b, quic_server := Some q\<rparr>)
        = Inr (l'\<lparr>buffer_from_client := ?b\<rparr>)"
    unfolding eq using replay_bfc[of True "l\<lparr>quic_server := Some q\<rparr>" e ?b ?b] r by simp
  then show ?thesis
    using assms r
    by (simp add: buffer_phase_client relay_handle_event_def state_ready_def)
qed

lemma replay_phase_server:
  assumes "handle_event_state l = StateReady" "quic_client l = None"
  shows "relay_handle_events e (map (QuicConnectionEvent ServerConn) evs @ [QuicStart ClientConn (Some q)]) l =
     (case replay e False (buffer_from_server l @ evs) (l\<lparr>quic_client := Some q\<rparr>) of
        Inl x \<Rightarrow> Inl x
      | Inr l' \<Rightarrow> Inr (l'\<lparr>buffer_from_server := []\<rparr>))"
proof -
  let ?b = "buffer_from_server l @ evs"
  obtain l' where r: "replay e False ?b (l\<lparr>quic_client := Some q\<rparr>) = Inr l'"
    using replay_total by blast
  have eq: "l\<lparr>buffer_from_server := ?b, quic_client := Some q\<rparr>
          = l\<lparr>quic_client := Some q, buffer_from_server := ?b\<rparr>" by simp
  have "replay e False ?b (l\<lparr>buffer_from_server := ?b, quic_client := Some q\<rparr>)
        = Inr (l'\<lparr>buffer_from_server := ?b\<rparr>)"
    unfolding eq using replay_bfs[of False "l\<lparr>quic_client := Some q\<rparr>" e ?b ?b] r by simp
  then show ?thesis
    using assms r
    by (simp add: buffer_phase_server relay_handle_event_def state_ready_def)
qed

lemma new_message_ref: "fst (new_message fc data s) = next_ref s"
  by (simp add: new_message_def Let_def)

lemma forward_datagram_calls:
  assumes "udp_flow l = Some uf"
  shows "let m = next_ref (gen l);
             s0 = append_udp_message uf m (snd (new_message fc data (gen l)));
             s1 = emit_hook e (UdpMessageHook uf) s0
         in msgs (heap s0) m = \<lparr>from_client = fc, content = data\<rparr> \<and>
            messages (udp_flows (heap s0) uf) = messages (udp_flows (heap (gen l)) uf) @ [m] \<and>
            engine_calls (forward_datagram e data fc pq l) =
              engine_calls l @ [(pq, SendDatagramFrame (content (msgs (heap s1) m)))]"
  using assms
  by (simp add: forward_datagram_def new_message_def append_udp_message_def engine_call_def Let_def)

lemma send_stream_payload_calls:
  "engine_calls (send_stream_payload e st data es fc pq l) =
     engine_calls l @
       [(pq, SendStreamData (stream_id st)
               (case flow st of
                  None \<Rightarrow> data
                | Some f \<Rightarrow>
                    content (msgs (heap (emit_hook e (TcpMessageHook f)
                       (append_tcp_message f (next_ref (gen l)) (snd (new_message fc data (gen l))))))
                       (next_ref (gen l))))
               es)]"
  by (simp add: send_stream_payload_def new_message_def engine_call_def Let_def split: option.splits)

lemma appended_tcp_message:
  "let m = next_ref s; s0 = append_tcp_message f m (snd (new_message fc data s))
   in msgs (heap s0) m = \<lparr>from_client = fc, content = data\<rparr> \<and>
      messages (tcp_flows (heap s0) f) = messages (tcp_flows (heap s) f) @ [m]"
  by (simp add: new_message_def append_tcp_message_def Let_def)

lemma forward_stream_data_calls:
  assumes g: "get_or_create_stream e sid l = (st, l1)"
  shows "\<exists>l'. forward_stream_data e sid data es fc pq pc l = Inr l' \<and>
      engine_calls l' =
        (if has_ended st fc then engine_calls l
         else engine_calls l @
           [(pq, SendStreamData (stream_id st)
               (case flow st of
                  None \<Rightarrow> data
                | Some f \<Rightarrow>
                    content (msgs (heap (emit_hook e (TcpMessageHook f)
                       (append_tcp_message f (next_ref (gen l1)) (snd (new_message fc data (gen l1))))))
                       (next_ref (gen l1))))
               es)])"
proof (cases "has_ended st fc")
  case True
  with g get_or_create_stream_frame[OF g] show ?thesis
    by (simp add: forward_stream_data_def yield_def)
next
  case False
  let ?lb = "send_stream_payload e st data es fc pq l1"
  have cb: "engine_calls ?lb = engine_calls l1 @
       [(pq, SendStreamData (stream_id st)
               (case flow st of
                  None \<Rightarrow> data
                | Some f \<Rightarrow>
                    content (msgs (heap (emit_hook e (TcpMessageHook f)
                       (append_tcp_message f (next_ref (gen l1)) (snd (new_message fc data (gen l1))))))
                       (next_ref (gen l1))))
               es)]"
    by (rule send_stream_payload_calls)
  show ?thesis
  proof (cases es)
    case True
    obtain lc where c: "stream_mark_ended e fc None st ?lb = Inr lc"
      using stream_mark_ended_total[OF False] by blast
    with g False True stream_mark_ended_frame[OF c] cb get_or_create_stream_frame[OF g]
    show ?thesis
      by (simp add: forward_stream_data_def Let_def yield_def)
  next
    case es: False
    with g False cb get_or_create_stream_frame[OF g] show ?thesis
      by (simp add: forward_stream_data_def Let_def yield_def)
  qed
qed

text \<open>
  Claim C3.  With both engines registered and a relay that is not ignored: a dispatched
  \<^verbatim>\<open>DatagramFrameReceived\<close> makes exactly one call on the peer engine,
  \<^verbatim>\<open>send_datagram_frame\<close> with the content of the message that was appended to the UDP
  flow, read after \<^verbatim>\<open>UdpMessageHook\<close> returned.  A dispatched \<^verbatim>\<open>StreamDataReceived\<close> on a
  side that has already ended makes no call; otherwise it makes exactly one call,
  \<^verbatim>\<open>send_stream_data\<close> with the stream's id, the content of the message appended to the
  stream's flow, read after \<^verbatim>\<open>TcpMessageHook\<close> returned, and the event's end-of-stream
  flag; when the hook leaves the message as it was, these are the event's own bytes.
\<close>

theorem relay_forwards_hooked_payload:
  assumes "quic_client l = Some qc" and "quic_server l = Some qs" and "udp_flow l = Some uf"
  shows
    "(let m = next_ref (gen l);
          s0 = append_udp_message uf m (snd (new_message fc data (gen l)));
          s1 = emit_hook e (UdpMessageHook uf) s0
      in msgs (heap s0) m = \<lparr>from_client = fc, content = data\<rparr> \<and>
         messages (udp_flows (heap s0) uf) = messages (udp_flows (heap (gen l)) uf) @ [m] \<and>
         (\<exists>l'. handle_quic_event e (DatagramFrameReceived data) fc l = Inr l' \<and>
            engine_calls l' = engine_calls l @
              [(if fc then qs else qc, SendDatagramFrame (content (msgs (heap s1) m)))])) \<and>
     (let st = fst (get_or_create_stream e sid l);
          l1 = snd (get_or_create_stream e sid l)
      in \<exists>l'. handle_quic_event e (StreamDataReceived sid data end_stream) fc l = Inr l' \<and>
           (if has_ended st fc then engine_calls l' = engine_calls l
            else
              (case flow st of
                 None \<Rightarrow>
                   engine_calls l' = engine_calls l @
                     [(if fc then qs else qc, SendStreamData (stream_id st) data end_stream)]
               | Some f \<Rightarrow>
                   (let m = next_ref (gen l1);
                        s0 = append_tcp_message f m (snd (new_message fc data (gen l1)));
                        s1 = emit_hook e (TcpMessageHook f) s0
                    in msgs (heap s0) m = \<lparr>from_client = fc, content = data\<rparr> \<and>
                       messages (tcp_flows (heap s0) f) =
                         messages (tcp_flows (heap (gen l1)) f) @ [m] \<and>
                       engine_calls l' = engine_calls l @
                         [(if fc then qs else qc,
                           SendStreamData (stream_id st) (content (msgs (heap s1) m)) end_stream)] \<and>
                       (msgs (heap s1) m = msgs (heap s0) m \<longrightarrow>
                          engine_calls l' = engine_calls l @
                            [(if fc then qs else qc,
                              SendStreamData (stream_id st) data end_stream)])))))"
proof -
  let ?pq = "if fc then qs else qc"
  have peer: "(if fc then quic_server l else quic_client l) = Some ?pq"
    using assms by simp
  have A: "let m = next_ref (gen l);
          s0 = append_udp_message uf m (snd (new_message fc data (gen l)));
          s1 = emit_hook e (UdpMessageHook uf) s0
      in msgs (heap s0) m = \<lparr>from_client = fc, content = data\<rparr> \<and>
         messages (udp_flows (heap s0) uf) = messages (udp_flows (heap (gen l)) uf) @ [m] \<and>
         (\<exists>l'. handle_quic_event e (DatagramFrameReceived data) fc l = Inr l' \<and>
            engine_calls l' = engine_calls l @
              [(?pq, SendDatagramFrame (content (msgs (heap s1) m)))])"
    using forward_datagram_calls[OF assms(3), of fc data e ?pq] peer
    by (simp add: handle_quic_event_def Let_def yield_def)
  obtain st l1 where g: "get_or_create_stream e sid l = (st, l1)" by fastforce
  obtain l' where h: "forward_stream_data e sid data end_stream fc ?pq (if fc then ServerConn else ClientConn) l = Inr l'"
    and c: "engine_calls l' =
        (if has_ended st fc then engine_calls l
         else engine_calls l @
           [(?pq, SendStreamData (stream_id st)
               (case flow st of
                  None \<Rightarrow> data
                | Some f \<Rightarrow>
                    content (msgs (heap (emit_hook e (TcpMessageHook f)
                       (append_tcp_message f (next_ref (gen l1)) (snd (new_message fc data (gen l1))))))
                       (next_ref (gen l1))))
               end_stream)])"
    using forward_stream_data_calls[OF g] by blast
  have h': "handle_quic_event e (StreamDataReceived sid data end_stream) fc l = Inr l'"
    using h peer by (simp add: handle_quic_event_def)
  have B: "let st = fst (get_or_create_stream e sid l);
          l1 = snd (get_or_create_stream e sid l)
      in \<exists>l'. handle_quic_event e (StreamDataReceived sid data end_stream) fc l = Inr l' \<and>
           (if has_ended st fc then engine_calls l' = engine_calls l
            else
              (case flow st of
                 None \<Rightarrow>
                   engine_calls l' = engine_calls l @
                     [(?pq, SendStreamData (stream_id st) data end_stream)]
               | Some f \<Rightarrow>
                   (let m = next_ref (gen l1);
                        s0 = append_tcp_message f m (snd (new_message fc data (gen l1)));
                        s1 = emit_hook e (TcpMessageHook f) s0
                    in msgs (heap s0) m = \<lparr>from_client = fc, content = data\<rparr> \<and>
                       messages (tcp_flows (heap s0) f) =
                         messages (tcp_flows (heap (gen l1)) f) @ [m] \<and>
                       engine_calls l' = engine_calls l @
                         [(?pq,
                           SendStreamData (stream_id st) (content (msgs (heap s1) m)) end_stream)] \<and>
                       (msgs (heap s1) m = msgs (heap s0) m \<longrightarrow>
                          engine_calls l' = engine_calls l @
                            [(?pq, SendStreamData (stream_id st) data end_stream)]))))"
    using g h' c appended_tcp_message[where s="gen l1" and fc=fc and data=data]
    by (auto simp: Let_def split: option.splits)
  from A B show ?thesis by blast
qed

lemma mark_ended_out:
  assumes "mark_ended e fc err st s = Inr r"
  shows "\<exists>cmds. out (snd r) = out s @ cmds \<and> (\<forall>c\<in>set cmds. ending_hook c)"
  using assms
  by (auto simp: mark_ended_def Let_def emit_hook_def set_tcp_live_def set_tcp_error_def ending_hook_def
      split: if_splits option.splits)

lemma stream_mark_ended_out:
  assumes "stream_mark_ended e fc err st l = Inr l1"
  shows "\<exists>cmds. out (gen l1) = out (gen l) @ cmds \<and> (\<forall>c\<in>set cmds. ending_hook c)"
  using assms mark_ended_out[of e fc err st "gen l"]
  by (auto simp: stream_mark_ended_def split: sum.splits)

lemma end_streams_result:
  "\<exists>l1 cmds. end_streams e fc ps l = Inr l1 \<and>
     out (gen l1) = out (gen l) @ cmds \<and> (\<forall>c\<in>set cmds. ending_hook c) \<and>
     engine_calls l1 = engine_calls l \<and> udp_flow l1 = udp_flow l \<and>
     handle_event_state l1 = handle_event_state l \<and>
     client_connected l1 = client_connected l \<and> server_connected l1 = server_connected l"
proof (induction ps arbitrary: l)
  case Nil
  then show ?case by simp
next
  case (Cons p ps)
  show ?case
  proof (cases "has_ended (snd p) fc")
    case True
    with Cons.IH[of l] show ?thesis by simp
  next
    case False
    obtain la where a: "stream_mark_ended e fc (Some ''Connection closed.'') (snd p) l = Inr la"
      using stream_mark_ended_total[OF False] by blast
    obtain c1 where c1: "out (gen la) = out (gen l) @ c1" "\<forall>c\<in>set c1. ending_hook c"
      using stream_mark_ended_out[OF a] by blast
    obtain l1 c2 where r: "end_streams e fc ps la = Inr l1"
      "out (gen l1) = out (gen la) @ c2" "\<forall>c\<in>set c2. ending_hook c"
      "engine_calls l1 = engine_calls la" "udp_flow l1 = udp_flow la"
      "handle_event_state l1 = handle_event_state la"
      "client_connected l1 = client_connected la" "server_connected l1 = server_connected la"
      using Cons.IH[of la] by blast
    have "out (gen l1) = out (gen l) @ (c1 @ c2)" using c1 r by simp
    moreover have "\<forall>c\<in>set (c1 @ c2). ending_hook c" using c1 r by auto
    ultimately show ?thesis
      using False a r stream_mark_ended_frame[OF a] by (simp; blast)
  qed
qed

lemma state_done_closed:
  "\<exists>l1 cmds. state_done e (ConnectionClosed c) l = Inr l1 \<and>
     out (gen l1) = out (gen l) @ cmds \<and> (\<forall>c\<in>set cmds. ending_hook c) \<and>
     engine_calls l1 = engine_calls l \<and> handle_event_state l1 = handle_event_state l"
proof -
  obtain la c1 where a: "end_streams e (c = ClientConn) (streams_by_id l) l = Inr la"
     "out (gen la) = out (gen l) @ c1" "\<forall>c\<in>set c1. ending_hook c"
     "engine_calls la = engine_calls l" "udp_flow la = udp_flow l"
     "handle_event_state la = handle_event_state l"
    using end_streams_result[of e "c = ClientConn" "streams_by_id l" l] by blast
  show ?thesis
  proof (cases "udp_flow la")
    case None
    with a(1) have "state_done e (ConnectionClosed c) l = Inr la" by (simp add: state_done_def)
    with a show ?thesis by blast
  next
    case (Some f)
    show ?thesis
    proof (cases "\<not> client_connected la \<and> \<not> server_connected la")
      case False
      with a(1) Some have "state_done e (ConnectionClosed c) l = Inr la"
        by (auto simp add: state_done_def)
      with a show ?thesis by blast
    next
      case True
      let ?c2 = "if error (udp_flows (heap (gen la)) f) = None then [HookCmd (UdpEndHook f)] else []"
      let ?l1 = "la\<lparr>gen := set_udp_live f False
                                 (if error (udp_flows (heap (gen la)) f) = None
                                  then emit_hook e (UdpEndHook f) (gen la) else gen la)\<rparr>"
      have 1: "state_done e (ConnectionClosed c) l = Inr ?l1"
        using a(1) Some True by (simp add: state_done_def)
      have 2: "out (gen ?l1) = out (gen l) @ (c1 @ ?c2)"
        using a by (simp add: set_udp_live_def emit_hook_def)
      have 3: "\<forall>c\<in>set (c1 @ ?c2). ending_hook c"
        using a by (auto simp: ending_hook_def)
      have 4: "engine_calls ?l1 = engine_calls l" "handle_event_state ?l1 = handle_event_state l"
        using a by simp_all
      from 1 2 3 4 show ?thesis by blast
    qed
  qed
qed

lemma is_success_error_code_iff:
  "is_success_error_code e code \<longleftrightarrow>
     code = QuicErrorCode_NO_ERROR e \<or> code = H3ErrorCode_H3_NO_ERROR e"
  by (auto simp: is_success_error_code_def)

lemma close_peer_result:
  "engine_calls (close_peer pc pq ce l) =
     engine_calls l @ (case pq of None \<Rightarrow> [] | Some q \<Rightarrow>
         (case ce of None \<Rightarrow> [] | Some x \<Rightarrow> [(q, Close (Some (fst x)) (fst (snd x)) (snd (snd x)))])) \<and>
   out (gen (close_peer pc pq ce l)) =
     out (gen l) @ [case pq of None \<Rightarrow> CloseConnection pc | Some q \<Rightarrow>
         (case ce of None \<Rightarrow> CloseConnection pc | Some x \<Rightarrow> QuicTransmit pc q)] \<and>
   udp_flow (close_peer pc pq ce l) = udp_flow l"
  by (simp add: close_peer_def yield_def emit_def engine_call_def split: option.splits)

lemma report_close_error_result:
  "engine_calls (report_close_error e ce l) = engine_calls l \<and>
   out (gen (report_close_error e ce l)) =
     out (gen l) @ (case udp_flow l of None \<Rightarrow> [] | Some f \<Rightarrow>
         (case ce of None \<Rightarrow> [] | Some x \<Rightarrow>
            if is_success_error_code e (fst x) then [] else [HookCmd (UdpErrorHook f)]))"
  by (simp add: report_close_error_def emit_hook_def set_udp_error_def split: option.splits)

lemma mark_ended_udp:
  assumes "mark_ended e fc err st s = Inr r"
    and "\<forall>k h. error (udp_flows (addon e k h) f) = error (udp_flows h f)"
  shows "error (udp_flows (heap (snd r)) f) = error (udp_flows (heap s) f)"
  using assms
  by (auto simp: mark_ended_def Let_def emit_hook_def set_tcp_error_def set_tcp_live_def
      split: if_splits option.splits)

lemma stream_mark_ended_udp:
  assumes "stream_mark_ended e fc err st l = Inr l1"
    and "\<forall>k h. error (udp_flows (addon e k h) f) = error (udp_flows h f)"
  shows "error (udp_flows (heap (gen l1)) f) = error (udp_flows (heap (gen l)) f)"
  using assms mark_ended_udp[of e fc err st "gen l" _ f]
  by (auto simp: stream_mark_ended_def split: sum.splits)

lemma end_streams_udp:
  assumes "\<forall>k h. error (udp_flows (addon e k h) f) = error (udp_flows h f)"
  shows "end_streams e fc ps l = Inr l1 \<Longrightarrow>
         error (udp_flows (heap (gen l1)) f) = error (udp_flows (heap (gen l)) f)"
proof (induction ps arbitrary: l)
  case Nil
  then show ?case by simp
next
  case (Cons p ps)
  show ?case
  proof (cases "has_ended (snd p) fc")
    case True
    with Cons.prems have "end_streams e fc ps l = Inr l1" by simp
    then show ?thesis by (rule Cons.IH)
  next
    case False
    with Cons.prems obtain la where
      a: "stream_mark_ended e fc (Some ''Connection closed.'') (snd p) l = Inr la"
      and b: "end_streams e fc ps la = Inr l1"
      by (auto split: sum.splits)
    from Cons.IH[OF b] stream_mark_ended_udp[OF a assms] show ?thesis by simp
  qed
qed

lemma state_done_udp:
  assumes "state_done e (ConnectionClosed c) l = Inr l'"
    and A: "\<forall>k h. error (udp_flows (addon e k h) f) = error (udp_flows h f)"
  shows "error (udp_flows (heap (gen l')) f) = error (udp_flows (heap (gen l)) f)"
proof -
  from assms(1) obtain la where a: "end_streams e (c = ClientConn) (streams_by_id l) l = Inr la"
    and b: "l' = la \<or> (\<exists>g. l' = la\<lparr>gen := set_udp_live g False (gen la)\<rparr>) \<or>
            (\<exists>g. l' = la\<lparr>gen := set_udp_live g False (emit_hook e (UdpEndHook g) (gen la))\<rparr>)"
    by (auto simp: state_done_def split: sum.splits option.splits if_splits)
  from b A have "error (udp_flows (heap (gen l')) f) = error (udp_flows (heap (gen la)) f)"
    by (auto simp: set_udp_live_def emit_hook_def)
  with end_streams_udp[OF A a] show ?thesis by simp
qed

lemma close_peer_gen:
  "heap (gen (close_peer pc pq ce l)) = heap (gen l) \<and>
   next_ref (gen (close_peer pc pq ce l)) = next_ref (gen l)"
  by (simp add: close_peer_def yield_def emit_def engine_call_def split: option.splits)

lemma state_ready_closed_unfold:
  "state_ready e (ConnectionClosed c) l =
     (let fc = (c = ClientConn);
          peer_conn = (if fc then ServerConn else ClientConn);
          peer_quic = (if fc then quic_server l else quic_client l);
          closed_quic = (if fc then quic_client l else quic_server l);
          close_ev = (case closed_quic of None \<Rightarrow> None | Some q \<Rightarrow> close_event (engines l q));
          l1 = close_peer peer_conn peer_quic close_ev l
      in state_done e (ConnectionClosed c)
           (case udp_flow l of
              None \<Rightarrow> l1\<lparr>handle_event_state := StateDone\<rparr>
            | Some f \<Rightarrow>
                (case close_ev of
                   None \<Rightarrow> l1\<lparr>handle_event_state := StateDone\<rparr>
                 | Some ce \<Rightarrow>
                     if is_success_error_code e (fst ce)
                     then l1\<lparr>handle_event_state := StateDone\<rparr>
                     else l1\<lparr>gen := (gen l1)
                                   \<lparr>out := out (gen l1) @ [HookCmd (UdpErrorHook f)],
                                    heap := addon e (UdpErrorHook f)
                                      ((heap (gen l))\<lparr>udp_flows := (udp_flows (heap (gen l)))
                                         (f := (udp_flows (heap (gen l)) f)
                                            \<lparr>error := Some (if snd (snd ce) \<noteq> [] then snd (snd ce)
                                                             else error_code_to_str e (fst ce))\<rparr>)\<rparr>)\<rparr>,
                            handle_event_state := StateDone\<rparr>)))"
proof -
  have u: "udp_flow (close_peer pc pq ce l) = udp_flow l" for pc pq ce
    using close_peer_result[of pc pq ce l] by simp
  show ?thesis
    by (simp add: state_ready_def Let_def report_close_error_def u emit_hook_def
        set_udp_error_def close_peer_gen split: option.splits)
qed

text \<open>
  Claim C5.  On \<^verbatim>\<open>ConnectionClosed\<close> in the Ready state the relay always returns and is
  in the Done state afterwards.  If the peer engine is registered and the closed side's
  engine has a close event, the only engine call is \<^verbatim>\<open>close\<close> on the peer engine with
  that event's error code, frame type and reason phrase, and the first command is the
  transmit for the peer; otherwise no engine is called and the first command is a
  \<^verbatim>\<open>CloseConnection\<close> for the peer connection.  An error is reported exactly when the
  relay has a UDP flow and there is a close event whose code is not a success code: then
  the reason phrase (or, if it is empty, the name of the code) is written to the flow's
  error, \<^verbatim>\<open>UdpErrorHook\<close> is yielded next, the addons seeing the flow with that error,
  and the generic close handling runs on the result; in every other case the close
  handling runs at once, nothing being written or reported.  Every later command only
  reports the end of a flow.  With addons that leave the error of the flow alone, the
  flow's error when the relay returns is the reported one, or else the one it had.  The
  success codes are exactly \<^verbatim>\<open>NO_ERROR\<close> and \<^verbatim>\<open>H3_NO_ERROR\<close>.
\<close>

theorem relay_connection_closed:
  "let fc = (c = ClientConn);
       peer_conn = (if fc then ServerConn else ClientConn);
       peer_quic = (if fc then quic_server l else quic_client l);
       closed_quic = (if fc then quic_client l else quic_server l);
       close_ev = (case closed_quic of None \<Rightarrow> None | Some q \<Rightarrow> close_event (engines l q));
       l1 = close_peer peer_conn peer_quic close_ev l;
       reported = (case udp_flow l of
                     None \<Rightarrow> None
                   | Some f \<Rightarrow>
                       (case close_ev of
                          None \<Rightarrow> None
                        | Some ce \<Rightarrow>
                            if is_success_error_code e (fst ce) then None
                            else Some (f, if snd (snd ce) \<noteq> [] then snd (snd ce)
                                          else error_code_to_str e (fst ce))))
   in (\<exists>l' rest.
         state_ready e (ConnectionClosed c) l = Inr l' \<and>
         handle_event_state l' = StateDone \<and>
         engine_calls l' = engine_calls l @
           (case peer_quic of
              None \<Rightarrow> []
            | Some pq \<Rightarrow>
                (case close_ev of
                   None \<Rightarrow> []
                 | Some ce \<Rightarrow> [(pq, Close (Some (fst ce)) (fst (snd ce)) (snd (snd ce)))])) \<and>
         out (gen l') = out (gen l) @
           [case peer_quic of
              None \<Rightarrow> CloseConnection peer_conn
            | Some pq \<Rightarrow>
                (case close_ev of
                   None \<Rightarrow> CloseConnection peer_conn
                 | Some ce \<Rightarrow> QuicTransmit peer_conn pq)] @
           (case udp_flow l of
              None \<Rightarrow> []
            | Some f \<Rightarrow>
                (case close_ev of
                   None \<Rightarrow> []
                 | Some ce \<Rightarrow>
                     if is_success_error_code e (fst ce) then [] else [HookCmd (UdpErrorHook f)])) @
           rest \<and>
         (\<forall>x\<in>set rest. \<exists>f. x = HookCmd (TcpErrorHook f) \<or> x = HookCmd (TcpEndHook f)
                               \<or> x = HookCmd (UdpEndHook f)) \<and>
         (\<forall>f. udp_flow l = Some f \<and>
               (\<forall>k h. error (udp_flows (addon e k h) f) = error (udp_flows h f)) \<longrightarrow>
               error (udp_flows (heap (gen l')) f) =
                 (case reported of
                    None \<Rightarrow> error (udp_flows (heap (gen l)) f)
                  | Some r \<Rightarrow> Some (snd r)))) \<and>
      state_ready e (ConnectionClosed c) l =
        state_done e (ConnectionClosed c)
          (case reported of
             None \<Rightarrow> l1\<lparr>handle_event_state := StateDone\<rparr>
           | Some r \<Rightarrow>
               l1\<lparr>gen := (gen l1)
                     \<lparr>out := out (gen l1) @ [HookCmd (UdpErrorHook (fst r))],
                      heap := addon e (UdpErrorHook (fst r))
                        ((heap (gen l))\<lparr>udp_flows := (udp_flows (heap (gen l)))
                           (fst r := (udp_flows (heap (gen l)) (fst r))\<lparr>error := Some (snd r)\<rparr>)\<rparr>)\<rparr>,
                  handle_event_state := StateDone\<rparr>) \<and>
      (\<forall>f ce. udp_flow l = Some f \<and> close_ev = Some ce \<and> \<not> is_success_error_code e (fst ce) \<longrightarrow>
         gen (report_close_error e close_ev l1) =
           emit_hook e (UdpErrorHook f)
             (set_udp_error f (if snd (snd ce) \<noteq> [] then snd (snd ce)
                               else error_code_to_str e (fst ce)) (gen l1))) \<and>
      (\<forall>code. is_success_error_code e code \<longleftrightarrow>
         code = QuicErrorCode_NO_ERROR e \<or> code = H3ErrorCode_H3_NO_ERROR e)"
proof -
  define fc where "fc = (c = ClientConn)"
  define peer_conn where "peer_conn = (if fc then ServerConn else ClientConn)"
  define peer_quic where "peer_quic = (if fc then quic_server l else quic_client l)"
  define closed_quic where "closed_quic = (if fc then quic_client l else quic_server l)"
  define close_ev where "close_ev = (case closed_quic of None \<Rightarrow> None | Some q \<Rightarrow> close_event (engines l q))"
  define l1 where "l1 = close_peer peer_conn peer_quic close_ev l"
  define reported where "reported = (case udp_flow l of
                     None \<Rightarrow> None
                   | Some f \<Rightarrow>
                       (case close_ev of
                          None \<Rightarrow> None
                        | Some ce \<Rightarrow>
                            if is_success_error_code e (fst ce) then None
                            else Some (f, if snd (snd ce) \<noteq> [] then snd (snd ce)
                                          else error_code_to_str e (fst ce))))"
  define l2 where "l2 = report_close_error e close_ev l1"
  define l3 where "l3 = l2\<lparr>handle_event_state := StateDone\<rparr>"
  define L where "L = (case reported of
             None \<Rightarrow> l1\<lparr>handle_event_state := StateDone\<rparr>
           | Some r \<Rightarrow>
               l1\<lparr>gen := (gen l1)
                     \<lparr>out := out (gen l1) @ [HookCmd (UdpErrorHook (fst r))],
                      heap := addon e (UdpErrorHook (fst r))
                        ((heap (gen l))\<lparr>udp_flows := (udp_flows (heap (gen l)))
                           (fst r := (udp_flows (heap (gen l)) (fst r))\<lparr>error := Some (snd r)\<rparr>)\<rparr>)\<rparr>,
                  handle_event_state := StateDone\<rparr>)"
  have sr: "state_ready e (ConnectionClosed c) l = state_done e (ConnectionClosed c) l3"
    by (simp add: state_ready_def Let_def fc_def peer_conn_def peer_quic_def closed_quic_def
        close_ev_def l1_def l2_def l3_def)
  have C: "state_ready e (ConnectionClosed c) l = state_done e (ConnectionClosed c) L"
    unfolding L_def reported_def l1_def close_ev_def closed_quic_def peer_quic_def peer_conn_def
      fc_def
    by (simp add: state_ready_closed_unfold Let_def split: option.splits)
  obtain l' rest where d: "state_done e (ConnectionClosed c) l3 = Inr l'"
     "out (gen l') = out (gen l3) @ rest" "\<forall>c\<in>set rest. ending_hook c"
     "engine_calls l' = engine_calls l3" "handle_event_state l' = handle_event_state l3"
    using state_done_closed[of e c l3] by blast
  note cp = close_peer_result[of peer_conn peer_quic close_ev l, folded l1_def]
  note rc = report_close_error_result[of e close_ev l1, folded l2_def]
  have o3: "out (gen l3) = out (gen l2)" "engine_calls l3 = engine_calls l2"
       "handle_event_state l3 = StateDone"
    by (simp_all add: l3_def)
  have dL: "state_done e (ConnectionClosed c) L = Inr l'" using sr C d(1) by simp
  have E: "error (udp_flows (heap (gen l')) f) =
                 (case reported of
                    None \<Rightarrow> error (udp_flows (heap (gen l)) f)
                  | Some r \<Rightarrow> Some (snd r))"
    if f: "udp_flow l = Some f"
      and a: "\<forall>k h. error (udp_flows (addon e k h) f) = error (udp_flows h f)" for f
  proof -
    have 1: "error (udp_flows (heap (gen l')) f) = error (udp_flows (heap (gen L)) f)"
      by (rule state_done_udp[OF dL a])
    have h1: "heap (gen l1) = heap (gen l)" unfolding l1_def using close_peer_gen by blast
    show ?thesis
    proof (cases reported)
      case None
      then have "heap (gen L) = heap (gen l)" using h1 by (simp add: L_def)
      with 1 None show ?thesis by simp
    next
      case (Some r)
      then have "fst r = f" using f
        by (auto simp: reported_def split: option.splits if_splits)
      with Some a have "error (udp_flows (heap (gen L)) f) = Some (snd r)"
        by (simp add: L_def)
      with 1 Some show ?thesis by simp
    qed
  qed
  have A: "\<exists>l' rest.
         state_ready e (ConnectionClosed c) l = Inr l' \<and>
         handle_event_state l' = StateDone \<and>
         engine_calls l' = engine_calls l @
           (case peer_quic of
              None \<Rightarrow> []
            | Some pq \<Rightarrow>
                (case close_ev of
                   None \<Rightarrow> []
                 | Some ce \<Rightarrow> [(pq, Close (Some (fst ce)) (fst (snd ce)) (snd (snd ce)))])) \<and>
         out (gen l') = out (gen l) @
           [case peer_quic of
              None \<Rightarrow> CloseConnection peer_conn
            | Some pq \<Rightarrow>
                (case close_ev of
                   None \<Rightarrow> CloseConnection peer_conn
                 | Some ce \<Rightarrow> QuicTransmit peer_conn pq)] @
           (case udp_flow l of
              None \<Rightarrow> []
            | Some f \<Rightarrow>
                (case close_ev of
                   None \<Rightarrow> []
                 | Some ce \<Rightarrow>
                     if is_success_error_code e (fst ce) then [] else [HookCmd (UdpErrorHook f)])) @
           rest \<and>
         (\<forall>x\<in>set rest. \<exists>f. x = HookCmd (TcpErrorHook f) \<or> x = HookCmd (TcpEndHook f)
                               \<or> x = HookCmd (UdpEndHook f)) \<and>
         (\<forall>f. udp_flow l = Some f \<and>
               (\<forall>k h. error (udp_flows (addon e k h) f) = error (udp_flows h f)) \<longrightarrow>
               error (udp_flows (heap (gen l')) f) =
                 (case reported of
                    None \<Rightarrow> error (udp_flows (heap (gen l)) f)
                  | Some r \<Rightarrow> Some (snd r)))"
    apply (rule exI[of _ l'], rule exI[of _ rest])
    using sr d cp rc o3 E by (simp add: ending_hook_def)
  have B: "\<forall>f ce. udp_flow l = Some f \<and> close_ev = Some ce \<and> \<not> is_success_error_code e (fst ce) \<longrightarrow>
         gen (report_close_error e close_ev l1) =
           emit_hook e (UdpErrorHook f)
             (set_udp_error f (if snd (snd ce) \<noteq> [] then snd (snd ce)
                               else error_code_to_str e (fst ce)) (gen l1))"
    using cp by (auto simp: report_close_error_def)
  from A B C[unfolded L_def] is_success_error_code_iff show ?thesis
    unfolding Let_def fc_def peer_conn_def peer_quic_def closed_quic_def close_ev_def l1_def
      reported_def
    by blast
qed

lemma QuicStream_init_id: "stream_id (fst (QuicStream_init e sid ig s)) = sid"
  by (simp add: QuicStream_init_def Let_def split: prod.splits)

lemma QuicStream_init_out: "out (snd (QuicStream_init e sid ig s)) = out s"
  by (simp add: QuicStream_init_def new_tcp_flow_def Let_def split: prod.splits)

lemma get_or_create_stream_streams:
  assumes "get_or_create_stream e sid l = (st, l1)"
  shows "(\<forall>k x. map_of (streams_by_id l) k = Some x \<longrightarrow> map_of (streams_by_id l1) k = Some x) \<and>
         (\<forall>k x. map_of (streams_by_id l1) k = Some x \<and> map_of (streams_by_id l) k = None \<longrightarrow>
                  k = sid \<and> x = fst (QuicStream_init e sid (udp_flow l = None) (gen l))) \<and>
         (\<exists>cmds. out (gen l1) = out (gen l) @ cmds \<and> (\<forall>c\<in>set cmds. \<not> ending_hook c))"
proof (cases "map_of (streams_by_id l) sid")
  case (Some x)
  with assms have "l1 = l" by (simp add: get_or_create_stream_def)
  then show ?thesis by auto
next
  case None
  obtain st0 s0 where i: "QuicStream_init e sid (udp_flow l = None) (gen l) = (st0, s0)" by fastforce
  have id: "stream_id st0 = sid" using QuicStream_init_id[of e sid "udp_flow l = None" "gen l"] i by simp
  have o: "out s0 = out (gen l)" using QuicStream_init_out[of e sid "udp_flow l = None" "gen l"] i by simp
  have s: "streams_by_id l1 = AList.update sid st0 (streams_by_id l)"
    using assms None i id
    by (auto simp: get_or_create_stream_def Let_def yield_hook_def split: option.splits)
  have out: "\<exists>cmds. out (gen l1) = out (gen l) @ cmds \<and> (\<forall>c\<in>set cmds. \<not> ending_hook c)"
    using assms None i o
    by (auto simp: get_or_create_stream_def Let_def yield_hook_def emit_hook_def ending_hook_def
        split: option.splits)
  from s None i out show ?thesis
    by (auto simp: update_conv' split: if_splits)
qed

lemma send_stream_payload_out:
  "\<exists>cmds. out (gen (send_stream_payload e st data es fc pq l)) = out (gen l) @ cmds \<and>
          (\<forall>c\<in>set cmds. \<not> ending_hook c)"
  by (auto simp: send_stream_payload_def new_message_def append_tcp_message_def emit_hook_def
      engine_call_def Let_def ending_hook_def split: option.splits)

lemma stream_data_open_keeps_streams:
  assumes "handle_quic_event e (StreamDataReceived sid data False) fc l = Inr l'"
  shows "(\<forall>k x. map_of (streams_by_id l) k = Some x \<longrightarrow> map_of (streams_by_id l') k = Some x) \<and>
         (\<forall>k x. map_of (streams_by_id l') k = Some x \<and> map_of (streams_by_id l) k = None \<longrightarrow>
                  x = fst (QuicStream_init e k (udp_flow l = None) (gen l))) \<and>
         (\<exists>cmds. out (gen l') = out (gen l) @ cmds \<and> (\<forall>c\<in>set cmds. \<not> ending_hook c))"
proof (cases "if fc then quic_server l else quic_client l")
  case None
  with assms have "streams_by_id l' = streams_by_id l" "gen l' = gen l"
    by (auto simp: handle_quic_event_def split: if_splits)
  then show ?thesis by auto
next
  case (Some pq)
  obtain st l1 where g: "get_or_create_stream e sid l = (st, l1)" by fastforce
  note gs = get_or_create_stream_streams[OF g]
  from gs obtain c1 where c1: "out (gen l1) = out (gen l) @ c1" "\<forall>c\<in>set c1. \<not> ending_hook c"
    by blast
  let ?pc = "if fc then ServerConn else ClientConn"
  from gs have g1: "\<forall>k x. map_of (streams_by_id l) k = Some x \<longrightarrow> map_of (streams_by_id l1) k = Some x"
    and g2: "\<forall>k x. map_of (streams_by_id l1) k = Some x \<and> map_of (streams_by_id l) k = None \<longrightarrow>
                  x = fst (QuicStream_init e k (udp_flow l = None) (gen l))"
    by blast+
  show ?thesis
  proof (cases "has_ended st fc")
    case True
    with assms Some g have l': "l' = yield (Log (ReceivedOnClosedStream (length data) sid) ''debug'') l1"
      by (simp add: handle_quic_event_def forward_stream_data_def)
    have o: "\<exists>cmds. out (gen l') = out (gen l) @ cmds \<and> (\<forall>c\<in>set cmds. \<not> ending_hook c)"
      by (rule exI[of _ "c1 @ [Log (ReceivedOnClosedStream (length data) sid) ''debug'']"])
         (use l' c1 in \<open>auto simp: yield_def emit_def ending_hook_def\<close>)
    have s: "streams_by_id l' = streams_by_id l1" using l' by (simp add: yield_def)
    show ?thesis unfolding s by (rule conjI[OF g1 conjI[OF g2 o]])
  next
    case False
    let ?lb = "send_stream_payload e st data False fc pq l1"
    from assms Some g False have l': "l' = yield (QuicTransmit ?pc pq) ?lb"
      by (simp add: handle_quic_event_def forward_stream_data_def Let_def)
    obtain c2 where c2: "out (gen ?lb) = out (gen l1) @ c2" "\<forall>c\<in>set c2. \<not> ending_hook c"
      using send_stream_payload_out by blast
    have o: "\<exists>cmds. out (gen l') = out (gen l) @ cmds \<and> (\<forall>c\<in>set cmds. \<not> ending_hook c)"
      by (rule exI[of _ "c1 @ c2 @ [QuicTransmit ?pc pq]"])
         (use l' c1 c2 in \<open>auto simp: yield_def emit_def ending_hook_def\<close>)
    have s: "streams_by_id l' = streams_by_id l1"
      using l' send_stream_payload_frame[OF refl, of e st data False fc pq l1] by (simp add: yield_def)
    show ?thesis unfolding s by (rule conjI[OF g1 conjI[OF g2 o]])
  qed
qed

text \<open>
  Claim C10.  A \<^verbatim>\<open>TcpMessageInjected\<close> in the Ready state is handled as a
  \<^verbatim>\<open>StreamDataReceived\<close> for the stream of its flow, with the message's content and
  end-of-stream false (an unknown flow is a \<^verbatim>\<open>KeyError\<close>).  Handling it leaves every
  existing stream object as it was, a stream it creates has the flags of its construction,
  no \<^verbatim>\<open>TcpErrorHook\<close> or \<^verbatim>\<open>TcpEndHook\<close> is yielded, and an event it adds to a buffer has
  end-of-stream false; and no stream data event with end-of-stream false, replayed or
  not, changes an existing stream object.
\<close>

theorem injected_tcp_message_never_ends_stream:
  "state_ready e (TcpMessageInjected f m) l =
     (case map_of (streams_by_flow l) f of
        None \<Rightarrow> Inl KeyError
      | Some sid \<Rightarrow>
          handle_quic_event e (StreamDataReceived sid (content m) False) (from_client m) l) \<and>
   (\<forall>l'. state_ready e (TcpMessageInjected f m) l = Inr l' \<longrightarrow>
      (\<forall>k x. map_of (streams_by_id l) k = Some x \<longrightarrow> map_of (streams_by_id l') k = Some x) \<and>
      (\<forall>k x. map_of (streams_by_id l') k = Some x \<and> map_of (streams_by_id l) k = None \<longrightarrow>
               x = fst (QuicStream_init e k (udp_flow l = None) (gen l))) \<and>
      (\<exists>cmds. out (gen l') = out (gen l) @ cmds \<and>
         (\<forall>c\<in>set cmds. \<forall>g. c \<noteq> HookCmd (TcpErrorHook g) \<and> c \<noteq> HookCmd (TcpEndHook g))) \<and>
      (\<forall>ev. ev \<in> set (buffer_from_client l' @ buffer_from_server l') \<longrightarrow>
             ev \<in> set (buffer_from_client l @ buffer_from_server l) \<or>
             (\<exists>sid. ev = StreamDataReceived sid (content m) False))) \<and>
   (\<forall>sid data fc l0 l'. handle_quic_event e (StreamDataReceived sid data False) fc l0 = Inr l' \<longrightarrow>
      (\<forall>k x. map_of (streams_by_id l0) k = Some x \<longrightarrow> map_of (streams_by_id l') k = Some x))"
proof -
  have A: "state_ready e (TcpMessageInjected f m) l =
     (case map_of (streams_by_flow l) f of
        None \<Rightarrow> Inl KeyError
      | Some sid \<Rightarrow>
          handle_quic_event e (StreamDataReceived sid (content m) False) (from_client m) l)"
    by (simp add: state_ready_def)
  have B: "(\<forall>k x. map_of (streams_by_id l) k = Some x \<longrightarrow> map_of (streams_by_id l') k = Some x) \<and>
      (\<forall>k x. map_of (streams_by_id l') k = Some x \<and> map_of (streams_by_id l) k = None \<longrightarrow>
               x = fst (QuicStream_init e k (udp_flow l = None) (gen l))) \<and>
      (\<exists>cmds. out (gen l') = out (gen l) @ cmds \<and>
         (\<forall>c\<in>set cmds. \<forall>g. c \<noteq> HookCmd (TcpErrorHook g) \<and> c \<noteq> HookCmd (TcpEndHook g))) \<and>
      (\<forall>ev. ev \<in> set (buffer_from_client l' @ buffer_from_server l') \<longrightarrow>
             ev \<in> set (buffer_from_client l @ buffer_from_server l) \<or>
             (\<exists>sid. ev = StreamDataReceived sid (content m) False))"
    if r: "state_ready e (TcpMessageInjected f m) l = Inr l'" for l'
  proof -
    from r A obtain sid where sid: "map_of (streams_by_flow l) f = Some sid"
      and h: "handle_quic_event e (StreamDataReceived sid (content m) False) (from_client m) l = Inr l'"
      by (auto split: option.splits)
    note k = stream_data_open_keeps_streams[OF h]
    from k obtain cmds where c: "out (gen l') = out (gen l) @ cmds" "\<forall>c\<in>set cmds. \<not> ending_hook c"
      by blast
    have c': "\<forall>c\<in>set cmds. \<forall>g. c \<noteq> HookCmd (TcpErrorHook g) \<and> c \<noteq> HookCmd (TcpEndHook g)"
      using c(2) by (auto simp: ending_hook_def)
    have buf: "\<forall>ev. ev \<in> set (buffer_from_client l' @ buffer_from_server l') \<longrightarrow>
             ev \<in> set (buffer_from_client l @ buffer_from_server l) \<or>
             (\<exists>sid. ev = StreamDataReceived sid (content m) False)"
    proof (cases "if from_client m then quic_server l else quic_client l")
      case None
      with h show ?thesis by (auto simp: handle_quic_event_def split: if_splits)
    next
      case (Some pq)
      then have "(if from_client m then quic_server l else quic_client l) \<noteq> None" by simp
      from handle_quic_event_frame[OF h this] show ?thesis by simp
    qed
    from k have k1: "\<forall>k x. map_of (streams_by_id l) k = Some x \<longrightarrow> map_of (streams_by_id l') k = Some x"
      and k2: "\<forall>k x. map_of (streams_by_id l') k = Some x \<and> map_of (streams_by_id l) k = None \<longrightarrow>
               x = fst (QuicStream_init e k (udp_flow l = None) (gen l))"
      by blast+
    have k3: "\<exists>cmds. out (gen l') = out (gen l) @ cmds \<and>
         (\<forall>c\<in>set cmds. \<forall>g. c \<noteq> HookCmd (TcpErrorHook g) \<and> c \<noteq> HookCmd (TcpEndHook g))"
      using c(1) c' by blast
    show ?thesis
      by (rule conjI[OF k1 conjI[OF k2 conjI[OF k3 buf]]])
  qed
  have C: "\<forall>sid data fc l0 l'. handle_quic_event e (StreamDataReceived sid data False) fc l0 = Inr l' \<longrightarrow>
      (\<forall>k x. map_of (streams_by_id l0) k = Some x \<longrightarrow> map_of (streams_by_id l') k = Some x)"
    using stream_data_open_keeps_streams by blast
  from B have B': "\<forall>l'. state_ready e (TcpMessageInjected f m) l = Inr l' \<longrightarrow>
      (\<forall>k x. map_of (streams_by_id l) k = Some x \<longrightarrow> map_of (streams_by_id l') k = Some x) \<and>
      (\<forall>k x. map_of (streams_by_id l') k = Some x \<and> map_of (streams_by_id l) k = None \<longrightarrow>
               x = fst (QuicStream_init e k (udp_flow l = None) (gen l))) \<and>
      (\<exists>cmds. out (gen l') = out (gen l) @ cmds \<and>
         (\<forall>c\<in>set cmds. \<forall>g. c \<noteq> HookCmd (TcpErrorHook g) \<and> c \<noteq> HookCmd (TcpEndHook g))) \<and>
      (\<forall>ev. ev \<in> set (buffer_from_client l' @ buffer_from_server l') \<longrightarrow>
             ev \<in> set (buffer_from_client l @ buffer_from_server l) \<or>
             (\<exists>sid. ev = StreamDataReceived sid (content m) False))"
    by (intro allI impI)
  show ?thesis
    by (rule conjI[OF A conjI[OF B' C]])
qed

text \<open>
  Claim C6.  An event handled while the peer's engine is not registered is appended to
  the buffer of its side and nothing else changes.  When events of one side arrive before
  the peer's \<^verbatim>\<open>QuicStart\<close>, the outcome of the whole sequence is that of handling the
  buffered events, oldest first, with the peer registered, and the buffer is empty
  afterwards; the replay never fails.
\<close>

theorem relay_buffers_then_replays:
  "((if fc then quic_server l else quic_client l) = None \<longrightarrow>
      handle_quic_event e ev fc l =
        Inr (if fc then l\<lparr>buffer_from_client := buffer_from_client l @ [ev]\<rparr>
             else l\<lparr>buffer_from_server := buffer_from_server l @ [ev]\<rparr>)) \<and>
   (handle_event_state l = StateReady \<and> quic_server l = None \<longrightarrow>
      relay_handle_events e
          (map (QuicConnectionEvent ClientConn) evs @ [QuicStart ServerConn (Some q)]) l =
        (case replay e True (buffer_from_client l @ evs) (l\<lparr>quic_server := Some q\<rparr>) of
           Inl x \<Rightarrow> Inl x
         | Inr l' \<Rightarrow> Inr (l'\<lparr>buffer_from_client := []\<rparr>))) \<and>
   (handle_event_state l = StateReady \<and> quic_client l = None \<longrightarrow>
      relay_handle_events e
          (map (QuicConnectionEvent ServerConn) evs @ [QuicStart ClientConn (Some q)]) l =
        (case replay e False (buffer_from_server l @ evs) (l\<lparr>quic_client := Some q\<rparr>) of
           Inl x \<Rightarrow> Inl x
         | Inr l' \<Rightarrow> Inr (l'\<lparr>buffer_from_server := []\<rparr>))) \<and>
   (\<exists>l'. replay e fc evs l = Inr l')"
proof -
  have A: "(if fc then quic_server l else quic_client l) = None \<longrightarrow>
      handle_quic_event e ev fc l =
        Inr (if fc then l\<lparr>buffer_from_client := buffer_from_client l @ [ev]\<rparr>
             else l\<lparr>buffer_from_server := buffer_from_server l @ [ev]\<rparr>)"
    by (simp add: handle_quic_event_def)
  have B: "handle_event_state l = StateReady \<and> quic_server l = None \<longrightarrow>
      relay_handle_events e
          (map (QuicConnectionEvent ClientConn) evs @ [QuicStart ServerConn (Some q)]) l =
        (case replay e True (buffer_from_client l @ evs) (l\<lparr>quic_server := Some q\<rparr>) of
           Inl x \<Rightarrow> Inl x
         | Inr l' \<Rightarrow> Inr (l'\<lparr>buffer_from_client := []\<rparr>))"
    using replay_phase_client by blast
  have C: "handle_event_state l = StateReady \<and> quic_client l = None \<longrightarrow>
      relay_handle_events e
          (map (QuicConnectionEvent ServerConn) evs @ [QuicStart ClientConn (Some q)]) l =
        (case replay e False (buffer_from_server l @ evs) (l\<lparr>quic_client := Some q\<rparr>) of
           Inl x \<Rightarrow> Inl x
         | Inr l' \<Rightarrow> Inr (l'\<lparr>buffer_from_server := []\<rparr>))"
    using replay_phase_server by blast
  show ?thesis
    by (rule conjI[OF A conjI[OF B conjI[OF C replay_total]]])
qed

section \<open>The theorems on the concrete relay\<close>

lemmas demo_defs =
  demo_relay_def demo_relay_both_def demo_env_def demo_io_def demo_heap_def demo_engine_def
  demo_addon_def QuicStreamLayer_init_def new_udp_flow_def

lemmas relay_defs =
  handle_quic_event_def forward_datagram_def forward_stream_data_def forward_stream_reset_def
  send_stream_payload_def get_or_create_stream_def QuicStream_init_def new_tcp_flow_def
  new_message_def append_udp_message_def append_tcp_message_def emit_hook_def emit_def
  yield_def yield_hook_def engine_call_def has_ended_def stream_mark_ended_def mark_ended_def
  set_tcp_error_def set_tcp_live_def tcp_error_def Let_def

theorem relay_buffers_then_replays_witness:
  "handle_event_state demo_relay = StateReady \<and> quic_server demo_relay = None \<and>
   (\<exists>l'. relay_handle_events demo_env
            (map (QuicConnectionEvent ClientConn)
               [StreamDataReceived 0 ''ABC'' False, DatagramFrameReceived ''dg'']
             @ [QuicStart ServerConn (Some 2)]) demo_relay = Inr l' \<and>
          engine_calls l' = [(2, SendStreamData 0 ''ab'' False), (2, SendDatagramFrame ''dg'')] \<and>
          buffer_from_client l' = [])"
  using relay_buffers_then_replays[of True demo_relay demo_env "PingAcknowledged"
      "[StreamDataReceived 0 ''ABC'' False, DatagramFrameReceived ''dg'']" 2]
  by (simp add: demo_defs relay_defs)

theorem relay_forwards_hooked_payload_witness:
  "quic_client demo_relay_both = Some 1 \<and> quic_server demo_relay_both = Some 2 \<and>
   udp_flow demo_relay_both = Some 0 \<and>
   \<not> has_ended (fst (get_or_create_stream demo_env 0 demo_relay_both)) True \<and>
   (\<exists>l'. handle_quic_event demo_env (StreamDataReceived 0 ''ABC'' True) True demo_relay_both = Inr l' \<and>
      engine_calls l' = [(2, SendStreamData 0 ''ab'' True)]) \<and>
   (\<exists>l'. handle_quic_event demo_env (DatagramFrameReceived ''dg'') False demo_relay_both = Inr l' \<and>
      engine_calls l' = [(1, SendDatagramFrame ''dg'')]) \<and>
   has_ended (fst (get_or_create_stream demo_env 2 demo_relay_both)) False \<and>
   (\<exists>l'. handle_quic_event demo_env (StreamDataReceived 2 ''ABC'' False) False demo_relay_both = Inr l' \<and>
      engine_calls l' = [])"
  using relay_forwards_hooked_payload[of demo_relay_both 1 2 0 True "''ABC''" demo_env 0 True]
        relay_forwards_hooked_payload[of demo_relay_both 1 2 0 False "''dg''" demo_env 2 False]
  by (simp add: demo_defs relay_defs)


lemma demo_addon_keeps_errors:
  "error (udp_flows (demo_addon k h) f) = error (udp_flows h f)"
  "error (tcp_flows (demo_addon k h) f) = error (tcp_flows h f)"
  by (auto simp: demo_addon_def split: Hook.splits list.splits)


text \<open>
  An ignored relay (it has no UDP flow) whose server side closes with a close event of
  the code \<open>0x101\<close>, which is no success code: the peer is closed with that event, and
  no error is recorded and no \<^verbatim>\<open>UdpErrorHook\<close> is yielded.
\<close>

theorem ignored_relay_records_no_error:
  "\<exists>l'. state_ready demo_env (ConnectionClosed ServerConn)
           ((QuicStreamLayer_init True True True (Some 0)
               (\<lambda>q. demo_engine\<lparr>close_event := Some (257, None, ''bad cert'')\<rparr>) demo_io)
              \<lparr>handle_event_state := StateReady, quic_client := Some 1, quic_server := Some 2\<rparr>)
         = Inr l' \<and>
       \<not> is_success_error_code demo_env 257 \<and>
       engine_calls l' = [(1, Close (Some 257) None ''bad cert'')] \<and>
       out (gen l') = [QuicTransmit ClientConn 1] \<and>
       heap (gen l') = demo_heap"
  by (simp add: demo_defs relay_defs state_ready_def state_done_def close_peer_def
        report_close_error_def is_success_error_code_def set_udp_error_def set_udp_live_def)

theorem relay_connection_closed_witness:
  "(\<exists>l'. state_ready demo_env (ConnectionClosed ServerConn)
            (demo_relay_both\<lparr>engines := (\<lambda>q. if q = 2
                 then demo_engine\<lparr>close_event := Some (257, None, ''bad cert'')\<rparr>
                 else demo_engine)\<rparr>) = Inr l' \<and>
      handle_event_state l' = StateDone \<and>
      engine_calls l' = [(1, Close (Some 257) None ''bad cert'')] \<and>
      out (gen l') = [QuicTransmit ClientConn 1, HookCmd (UdpErrorHook 0)] \<and>
      error (udp_flows (heap (gen l')) 0) = Some ''bad cert'') \<and>
   (\<exists>l'. state_ready demo_env (ConnectionClosed ServerConn)
            (demo_relay_both\<lparr>engines := (\<lambda>q. if q = 2
                 then demo_engine\<lparr>close_event := Some (256, None, '''')\<rparr>
                 else demo_engine)\<rparr>) = Inr l' \<and>
      engine_calls l' = [(1, Close (Some 256) None '''')] \<and>
      out (gen l') = [QuicTransmit ClientConn 1] \<and>
      error (udp_flows (heap (gen l')) 0) = None) \<and>
   (\<exists>l'. state_ready demo_env (ConnectionClosed ClientConn) demo_relay_both = Inr l' \<and>
      engine_calls l' = [] \<and> out (gen l') = [CloseConnection ServerConn]) \<and>
   is_success_error_code demo_env 0 \<and> is_success_error_code demo_env 256 \<and>
   \<not> is_success_error_code demo_env 257"
  using relay_connection_closed[of ServerConn
          "demo_relay_both\<lparr>engines := (\<lambda>q. if q = 2
                 then demo_engine\<lparr>close_event := Some (257, None, ''bad cert'')\<rparr>
                 else demo_engine)\<rparr>" demo_env]
  by (simp add: demo_defs relay_defs state_ready_def state_done_def close_peer_def
        report_close_error_def is_success_error_code_def set_udp_error_def set_udp_live_def)

theorem injected_tcp_message_never_ends_stream_witness:
  "(\<exists>l1 l2 st.
      handle_quic_event demo_env (StreamDataReceived 0 ''ABC'' False) True demo_relay_both = Inr l1 \<and>
      map_of (streams_by_flow l1) 1 = Some 0 \<and>
      map_of (streams_by_id l1) 0 = Some st \<and> \<not> ended_client st \<and> \<not> ended_server st \<and>
      state_ready demo_env (TcpMessageInjected 1 \<lparr>from_client = True, content = ''inj''\<rparr>) l1 = Inr l2 \<and>
      map_of (streams_by_id l2) 0 = Some st \<and>
      engine_calls l2 = [(2, SendStreamData 0 ''ab'' False), (2, SendStreamData 0 ''ab'' False)] \<and>
      out (gen l2) = [HookCmd (TcpStartHook 1), HookCmd (TcpMessageHook 1), QuicTransmit ServerConn 2,
                      HookCmd (TcpMessageHook 1), QuicTransmit ServerConn 2]) \<and>
   state_ready demo_env (TcpMessageInjected 7 \<lparr>from_client = True, content = ''inj''\<rparr>) demo_relay_both
     = Inl KeyError \<and>
   state_ready demo_env (TcpMessageInjected 7 \<lparr>from_client = True, content = ''inj''\<rparr>)
       (demo_relay\<lparr>streams_by_flow := [(7, 4)]\<rparr>)
     = Inr (demo_relay\<lparr>streams_by_flow := [(7, 4)],
                        buffer_from_client := [StreamDataReceived 4 ''inj'' False]\<rparr>)"
  using injected_tcp_message_never_ends_stream[of demo_env 7
          "\<lparr>from_client = True, content = ''inj''\<rparr>" demo_relay_both]
  by (simp add: demo_defs relay_defs state_ready_def)

section \<open>Properties of the layers\<close>

lemma gen_contains_absent: "x \<notin> set xs \<Longrightarrow> gen_contains x xs = (False, [])"
  by (induction xs) auto

lemma gen_contains_present: "x \<in> set xs \<Longrightarrow> fst (gen_contains x xs)"
  by (induction xs) auto

text \<open>
  Claim C1, on what the code does where the claim expects the list of supported versions.
  When the header of the first datagram carries a version that is set and is not among
  the supported ones, \<^verbatim>\<open>datagram_received\<close> hands \<^verbatim>\<open>encode_quic_version_negotiation\<close>
  the header's destination connection id as source, its source connection id as
  destination, and the generator \<^verbatim>\<open>supported_versions\<close> after the membership test has
  run it to its end: no version is left in it.  If the encoder returns a packet, that one
  packet is sent, no engine is created and nothing else changes; the layer's state, and so
  the packet, does not depend on which versions are supported.
\<close>

theorem version_negotiation_gets_exhausted_generator:
  assumes "pull_quic_header e data (quic_connection_id_length l) = Some header"
    and "version header = Some v"
    and "v \<notin> set (filter (\<lambda>x. x \<noteq> QuicProtocolVersion_NEGOTIATION e) (QuicProtocolVersion e))"
  shows "datagram_received e data l =
           (case encode_quic_version_negotiation e (destination_cid header) (source_cid header)
                   (PyGenerator []) of
              Inl x \<Rightarrow> Inl x
            | Inr packet \<Rightarrow> Inr (None, lyield (SendData (conn l) packet) l))"
  using assms gen_contains_absent[OF assms(3)]
  by (simp add: datagram_received_def Let_def)

lemma handle_connection_terminated_connections:
  "handle_connection_terminated e ev l = Inr l' \<Longrightarrow> connections l' = connections l"
  by (auto simp: handle_connection_terminated_def Let_def lyield_def update_self_conn_def
      split: option.splits if_splits)

lemma update_absent: "map_of al k = None \<Longrightarrow> AList.update k v al = al @ [(k, v)]"
  by (induction al) (auto split: if_splits)

lemma length_delete_present:
  "distinct (map fst al) \<Longrightarrow> map_of al k = Some v \<Longrightarrow> Suc (length (AList.delete k al)) = length al"
proof (induction al)
  case Nil
  then show ?case by simp
next
  case (Cons p al)
  obtain k' v' where p: "p = (k', v')" by (cases p)
  show ?case
  proof (cases "k' = k")
    case True
    with Cons.prems p have "k \<notin> fst ` set al" by auto
    then have "AList.delete k al = al" by (simp add: delete_id)
    with True p show ?thesis by simp
  next
    case False
    with Cons p show ?thesis by auto
  qed
qed

lemma issued_on_client:
  assumes "conn l = ClientConn"
  shows "handle_connection_id_issued cid l =
     (case map_of (connections l) (sockname (ctx_client l), cid) of
        None \<Rightarrow> Inr (l\<lparr>connections := connections l @ [((sockname (ctx_client l), cid), self_id l)]\<rparr>)
      | Some owner \<Rightarrow> Inl AssertionError)"
  using assms
  by (auto simp: handle_connection_id_issued_def Let_def update_absent split: option.splits)

lemma retired_on_client:
  assumes "conn l = ClientConn"
  shows "handle_connection_id_retired cid l =
     (case map_of (connections l) (sockname (ctx_client l), cid) of
        None \<Rightarrow> Inl KeyError
      | Some owner \<Rightarrow>
          if owner = self_id l
          then Inr (l\<lparr>connections := AList.delete (sockname (ctx_client l), cid) (connections l)\<rparr>)
          else Inl AssertionError)"
  using assms
  by (auto simp: handle_connection_id_retired_def Let_def split: option.splits)

lemma handle_childless_table:
  assumes "handle_childless ev l = Inr l'" "distinct (map fst (connections l))"
    and "conn l = ClientConn"
  shows "distinct (map fst (connections l')) \<and> conn l' = conn l \<and>
         length (connections l') + retired_count [ev] = length (connections l) + issued_count [ev]"
proof (cases ev)
  case (ConnectionIdIssued cid)
  with assms(1) have h: "handle_connection_id_issued cid l = Inr l'"
    by (simp add: handle_childless_def)
  from h assms(2) show ?thesis
    unfolding issued_on_client[OF assms(3)] ConnectionIdIssued
    by (auto simp: issued_count_def retired_count_def map_of_eq_None_iff split: option.splits)
next
  case (ConnectionIdRetired cid)
  with assms(1) have h: "handle_connection_id_retired cid l = Inr l'"
    by (simp add: handle_childless_def)
  let ?k = "(sockname (ctx_client l), cid)"
  from h have m: "map_of (connections l) ?k = Some (self_id l)"
    and l': "l' = l\<lparr>connections := AList.delete ?k (connections l)\<rparr>"
    unfolding retired_on_client[OF assms(3)]
    by (auto split: option.splits if_splits)
  from length_delete_present[OF assms(2) m] l' assms(2) show ?thesis
    unfolding ConnectionIdRetired
    by (simp add: issued_count_def retired_count_def distinct_delete)
qed (use assms in \<open>auto simp: handle_childless_def issued_count_def retired_count_def\<close>)

lemma counts_Cons:
  "issued_count (ev # evs) = issued_count [ev] + issued_count evs"
  "retired_count (ev # evs) = retired_count [ev] + retired_count evs"
  by (simp_all add: issued_count_def retired_count_def)

lemma handle_all_childless_table:
  "handle_all_childless evs l = Inr l' \<Longrightarrow> distinct (map fst (connections l)) \<Longrightarrow>
   conn l = ClientConn \<Longrightarrow>
   distinct (map fst (connections l')) \<and>
   length (connections l') + retired_count evs = length (connections l) + issued_count evs"
proof (induction evs arbitrary: l)
  case Nil
  then show ?case by (simp add: issued_count_def retired_count_def)
next
  case (Cons ev evs)
  from Cons.prems(1) obtain l1 where h: "handle_childless ev l = Inr l1"
    and r: "handle_all_childless evs l1 = Inr l'"
    by (auto split: sum.splits)
  note t = handle_childless_table[OF h Cons.prems(2,3)]
  from t Cons.prems(3) have c: "conn l1 = ClientConn" by simp
  from Cons.IH[OF r _ c] t show ?case
    by (simp add: counts_Cons[of ev evs])
qed

text \<open>
  Claim C2, as amended.  In the table of a \<^verbatim>\<open>ClientQuicLayer\<close> every key has at most one
  entry.  \<^verbatim>\<open>handle_connection_id_issued\<close> inserts the key for this layer when the key is
  absent and fails the assertion otherwise; \<^verbatim>\<open>handle_connection_id_retired\<close> removes
  the key when this layer owns it, is a \<^verbatim>\<open>KeyError\<close> when the key is absent and fails the
  assertion when another layer owns it; both keep the keys distinct.
  \<^verbatim>\<open>handle_connection_terminated\<close> leaves the table as it is.  Over any run of issue and
  retire events that a layer handles, the number of entries grows by the number of issues
  and shrinks by the number of retires.
\<close>

theorem connections_table_single_owner:
  assumes "conn l = ClientConn" and "distinct (map fst (connections l))"
  shows
    "handle_connection_id_issued cid l =
       (case map_of (connections l) (sockname (ctx_client l), cid) of
          None \<Rightarrow>
            Inr (l\<lparr>connections := connections l @ [((sockname (ctx_client l), cid), self_id l)]\<rparr>)
        | Some owner \<Rightarrow> Inl AssertionError) \<and>
     handle_connection_id_retired cid l =
       (case map_of (connections l) (sockname (ctx_client l), cid) of
          None \<Rightarrow> Inl KeyError
        | Some owner \<Rightarrow>
            if owner = self_id l
            then Inr (l\<lparr>connections :=
                           AList.delete (sockname (ctx_client l), cid) (connections l)\<rparr>)
            else Inl AssertionError) \<and>
     map_of (AList.delete (sockname (ctx_client l), cid) (connections l)) =
       (map_of (connections l))((sockname (ctx_client l), cid) := None) \<and>
     (\<forall>l'. handle_connection_id_issued cid l = Inr l' \<or> handle_connection_id_retired cid l = Inr l'
            \<longrightarrow> distinct (map fst (connections l'))) \<and>
     (\<forall>ev l'. handle_connection_terminated e ev l = Inr l' \<longrightarrow> connections l' = connections l) \<and>
     (\<forall>evs l'. handle_all_childless evs l = Inr l' \<longrightarrow>
        distinct (map fst (connections l')) \<and>
        length (connections l') + retired_count evs = length (connections l) + issued_count evs)"
proof -
  have D: "\<forall>l'. handle_connection_id_issued cid l = Inr l' \<or> handle_connection_id_retired cid l = Inr l'
            \<longrightarrow> distinct (map fst (connections l'))"
  proof (intro allI impI)
    fix l'
    assume "handle_connection_id_issued cid l = Inr l' \<or> handle_connection_id_retired cid l = Inr l'"
    then have "handle_childless (ConnectionIdIssued cid) l = Inr l' \<or>
               handle_childless (ConnectionIdRetired cid) l = Inr l'"
      by (simp add: handle_childless_def)
    then show "distinct (map fst (connections l'))"
      using handle_childless_table[OF _ assms(2,1)] by blast
  qed
  have T: "\<forall>ev l'. handle_connection_terminated e ev l = Inr l' \<longrightarrow> connections l' = connections l"
    using handle_connection_terminated_connections by blast
  have R: "\<forall>evs l'. handle_all_childless evs l = Inr l' \<longrightarrow>
        distinct (map fst (connections l')) \<and>
        length (connections l') + retired_count evs = length (connections l) + issued_count evs"
    using handle_all_childless_table[OF _ assms(2,1)] by blast
  have M: "map_of (AList.delete (sockname (ctx_client l), cid) (connections l)) =
       (map_of (connections l))((sockname (ctx_client l), cid) := None)"
    by (rule delete_conv')
  show ?thesis
    by (rule conjI[OF issued_on_client[OF assms(1)] conjI[OF retired_on_client[OF assms(1)]
          conjI[OF M conjI[OF D conjI[OF T R]]]]])
qed

subsection \<open>The registry of wakeups\<close>




lemma send_datagrams_frame:
  "send_datagrams ds l = Inr l' \<Longrightarrow>
     wakeup_commands l' = wakeup_commands l \<and> next_wakeup l' = next_wakeup l \<and>
     ticks l' = ticks l \<and> quic_store l' = quic_store l \<and> quic_calls l' = quic_calls l \<and>
     quic l' = quic l \<and> connections l' = connections l \<and> to_child l' = to_child l \<and>
     (\<exists>cmds. yielded l' = yielded l @ cmds \<and>
        list_all (\<lambda>c. case c of SendData k d \<Rightarrow> True | Log m v \<Rightarrow> True | _ \<Rightarrow> False) cmds)"
proof (induction ds arbitrary: l)
  case Nil
  then show ?case by simp
next
  case (Cons d ds)
  show ?case
  proof (cases "snd d = peername (self_conn l)")
    case True
    with Cons.prems have r: "send_datagrams ds (lyield (SendData (conn l) (fst d)) l) = Inr l'"
      by simp
    from Cons.IH[OF r] obtain cmds where c: "yielded l' = yielded (lyield (SendData (conn l) (fst d)) l) @ cmds"
      "list_all (\<lambda>c. case c of SendData k d \<Rightarrow> True | Log m v \<Rightarrow> True | _ \<Rightarrow> False) cmds"
      by blast
    have "yielded l' = yielded l @ (SendData (conn l) (fst d) # cmds)"
      using c by (simp add: lyield_def)
    moreover have "list_all (\<lambda>c. case c of SendData k d \<Rightarrow> True | Log m v \<Rightarrow> True | _ \<Rightarrow> False)
        (SendData (conn l) (fst d) # cmds)" using c by simp
    ultimately show ?thesis using Cons.IH[OF r] by (simp add: lyield_def; blast)
  next
    case False
    show ?thesis
    proof (cases "case map_of (routes l) (snd d) of None \<Rightarrow> None | Some h \<Rightarrow> h")
      case None
      with False Cons.prems have r: "send_datagrams ds (lyield (Log (NoRouteTo (conn l) (snd d)) ''info'') l) = Inr l'"
        by simp
      from Cons.IH[OF r] obtain cmds where c: "yielded l' = yielded (lyield (Log (NoRouteTo (conn l) (snd d)) ''info'') l) @ cmds"
        "list_all (\<lambda>c. case c of SendData k d \<Rightarrow> True | Log m v \<Rightarrow> True | _ \<Rightarrow> False) cmds"
        by blast
      have "yielded l' = yielded l @ (Log (NoRouteTo (conn l) (snd d)) ''info'' # cmds)"
        using c by (simp add: lyield_def)
      moreover have "list_all (\<lambda>c. case c of SendData k d \<Rightarrow> True | Log m v \<Rightarrow> True | _ \<Rightarrow> False)
          (Log (NoRouteTo (conn l) (snd d)) ''info'' # cmds)" using c by simp
      ultimately show ?thesis using Cons.IH[OF r] by (simp add: lyield_def; blast)
    next
      case (Some handler)
      with False Cons.prems have w: "snd handler"
        and r: "send_datagrams ds (l\<lparr>written := written l @ [(fst handler, fst d)]\<rparr>) = Inr l'"
        by (auto split: if_splits)
      from Cons.IH[OF r] show ?thesis by simp
    qed
  qed
qed




lemma transmit_unfold:
  "quic l = Some q \<Longrightarrow>
   transmit e l =
     (case send_datagrams (fst (datagrams_to_send e (loop_time e (ticks l)) (quic_store l q)))
             (l\<lparr>ticks := Suc (ticks l),
                quic_store := (quic_store l)
                  (q := snd (datagrams_to_send e (loop_time e (ticks l)) (quic_store l q))),
                quic_calls := quic_calls l @ [(q, DatagramsToSend (loop_time e (ticks l)))]\<rparr>) of
        Inl x \<Rightarrow> Inl x
      | Inr l2 \<Rightarrow> rearm_timer e q l2)"
  by (simp add: transmit_def read_time_def quic_call_def Let_def split_beta)









subsection \<open>Fuel\<close>

text \<open>A run that has not run out of fuel gives the same result with more fuel.\<close>

lemma seq_mono:
  assumes H: "\<And>c. rc c \<noteq> Inl OutOfFuel \<Longrightarrow> rc' c = rc c"
    and r: "(case rc X of Inl x \<Rightarrow> Inl x | Inr l2 \<Rightarrow> k l2) \<noteq> Inl OutOfFuel"
  shows "rc' X = rc X"
proof -
  from r have "rc X \<noteq> Inl OutOfFuel" by (cases "rc X") auto
  then show ?thesis by (rule H)
qed

lemma server_filter_mono:
  assumes H: "\<And>c. rc c \<noteq> Inl OutOfFuel \<Longrightarrow> rc' c = rc c"
    and r: "server_filter e rc uf cmd l \<noteq> Inl OutOfFuel"
  shows "server_filter e rc' uf cmd l = server_filter e rc uf cmd l"
  using r
  by (auto simp: server_filter_def Let_def H split: if_splits sum.splits option.splits prod.splits)

lemma filter_command_mono:
  assumes H: "\<And>c. rc c \<noteq> Inl OutOfFuel \<Longrightarrow> rc' c = rc c"
    and r: "filter_command e rc uf cmd l \<noteq> Inl OutOfFuel"
  shows "filter_command e rc' uf cmd l = filter_command e rc uf cmd l"
  using r server_filter_mono[where rc=rc and rc'=rc', OF H]
  by (auto simp: filter_command_def Let_def H split: if_splits Command.splits option.splits)

lemma drain_step_mono:
  assumes H: "\<And>c. rc c \<noteq> Inl OutOfFuel \<Longrightarrow> rc' c = rc c"
    and r: "drain_step e rc uf l \<noteq> Inl OutOfFuel"
  shows "drain_step e rc' uf l = drain_step e rc uf l"
proof (cases "quic l")
  case None
  then show ?thesis by (simp add: drain_step_def)
next
  case (Some q)
  show ?thesis
  proof (cases "events (quic_store l q)")
    case Nil
    with Some show ?thesis by (simp add: drain_step_def)
  next
    case (Cons event rest)
    let ?l1 = "l\<lparr>quic_store := (quic_store l)(q := (quic_store l q)\<lparr>events := rest\<rparr>)\<rparr>"
    show ?thesis
    proof (cases event)
      case (HandshakeCompleted ap ea sr)
      let ?A = "HandleHandshakeCompleted uf ap ea sr ?l1"
      from r Some Cons HandshakeCompleted have r1:
        "(case rc ?A of Inl x \<Rightarrow> Inl x
          | Inr l2 \<Rightarrow> (case rc (EventToChild uf (QuicStart (conn l2) (quic l2)) l2) of
                          Inl x \<Rightarrow> Inl x | Inr l3 \<Rightarrow> rc (DrainEvents uf l3))) \<noteq> Inl OutOfFuel"
        by (simp add: drain_step_def Let_def)
      have a: "rc' ?A = rc ?A" by (rule seq_mono[where rc=rc, OF H r1])
      show ?thesis
      proof (cases "rc ?A")
        case (Inl x)
        with a Some Cons HandshakeCompleted show ?thesis by (simp add: drain_step_def Let_def)
      next
        case (Inr l2)
        let ?B = "EventToChild uf (QuicStart (conn l2) (quic l2)) l2"
        from r1 Inr have r2: "(case rc ?B of Inl x \<Rightarrow> Inl x | Inr l3 \<Rightarrow> rc (DrainEvents uf l3))
                                \<noteq> Inl OutOfFuel" by simp
        have b: "rc' ?B = rc ?B" by (rule seq_mono[where rc=rc, OF H r2])
        show ?thesis
        proof (cases "rc ?B")
          case (Inl x)
          with a b Inr Some Cons HandshakeCompleted show ?thesis
            by (simp add: drain_step_def Let_def)
        next
          case Inr3: (Inr l3)
          with r2 have "rc (DrainEvents uf l3) \<noteq> Inl OutOfFuel" by simp
          from H[OF this] a b Inr Inr3 Some Cons HandshakeCompleted show ?thesis
            by (simp add: drain_step_def Let_def)
        qed
      qed
    next
      case (ConnectionIdIssued cid)
      with r Some Cons show ?thesis
        by (auto simp: drain_step_def Let_def H split: sum.splits)
    next
      case (ConnectionIdRetired cid)
      with r Some Cons show ?thesis
        by (auto simp: drain_step_def Let_def H split: sum.splits)
    next
      case (ConnectionTerminated code ft reason)
      with r Some Cons show ?thesis
        by (auto simp: drain_step_def Let_def H split: sum.splits)
    next
      case PingAcknowledged
      with r Some Cons show ?thesis
        by (auto simp: drain_step_def Let_def H split: sum.splits)
    next
      case ProtocolNegotiated
      with r Some Cons show ?thesis
        by (auto simp: drain_step_def Let_def H split: sum.splits)
    next
      case (OtherQuicEvent k)
      with r Some Cons show ?thesis
        by (auto simp: drain_step_def Let_def H split: sum.splits)
    next
      case (DatagramFrameReceived data)
      let ?B = "EventToChild uf (QuicConnectionEvent (conn ?l1) event) ?l1"
      show ?thesis
      proof (cases "tls_established (self_conn ?l1)")
        case False
        with Some Cons DatagramFrameReceived show ?thesis by (simp add: drain_step_def Let_def)
      next
        case True
        with r Some Cons DatagramFrameReceived have r2:
          "(case rc ?B of Inl x \<Rightarrow> Inl x | Inr l3 \<Rightarrow> rc (DrainEvents uf l3)) \<noteq> Inl OutOfFuel"
          by (simp add: drain_step_def Let_def)
        have b: "rc' ?B = rc ?B" by (rule seq_mono[where rc=rc, OF H r2])
        show ?thesis
        proof (cases "rc ?B")
          case (Inl x)
          with b True Some Cons DatagramFrameReceived show ?thesis
            by (simp add: drain_step_def Let_def)
        next
          case (Inr l3)
          with r2 have "rc (DrainEvents uf l3) \<noteq> Inl OutOfFuel" by simp
          from H[OF this] b Inr True Some Cons DatagramFrameReceived show ?thesis
            by (simp add: drain_step_def Let_def)
        qed
      qed
    next
      case (StreamDataReceived sid data es)
      let ?B = "EventToChild uf (QuicConnectionEvent (conn ?l1) event) ?l1"
      show ?thesis
      proof (cases "tls_established (self_conn ?l1)")
        case False
        with Some Cons StreamDataReceived show ?thesis by (simp add: drain_step_def Let_def)
      next
        case True
        with r Some Cons StreamDataReceived have r2:
          "(case rc ?B of Inl x \<Rightarrow> Inl x | Inr l3 \<Rightarrow> rc (DrainEvents uf l3)) \<noteq> Inl OutOfFuel"
          by (simp add: drain_step_def Let_def)
        have b: "rc' ?B = rc ?B" by (rule seq_mono[where rc=rc, OF H r2])
        show ?thesis
        proof (cases "rc ?B")
          case (Inl x)
          with b True Some Cons StreamDataReceived show ?thesis
            by (simp add: drain_step_def Let_def)
        next
          case (Inr l3)
          with r2 have "rc (DrainEvents uf l3) \<noteq> Inl OutOfFuel" by simp
          from H[OF this] b Inr True Some Cons StreamDataReceived show ?thesis
            by (simp add: drain_step_def Let_def)
        qed
      qed
    next
      case (StreamReset sid code)
      let ?B = "EventToChild uf (QuicConnectionEvent (conn ?l1) event) ?l1"
      show ?thesis
      proof (cases "tls_established (self_conn ?l1)")
        case False
        with Some Cons StreamReset show ?thesis by (simp add: drain_step_def Let_def)
      next
        case True
        with r Some Cons StreamReset have r2:
          "(case rc ?B of Inl x \<Rightarrow> Inl x | Inr l3 \<Rightarrow> rc (DrainEvents uf l3)) \<noteq> Inl OutOfFuel"
          by (simp add: drain_step_def Let_def)
        have b: "rc' ?B = rc ?B" by (rule seq_mono[where rc=rc, OF H r2])
        show ?thesis
        proof (cases "rc ?B")
          case (Inl x)
          with b True Some Cons StreamReset show ?thesis
            by (simp add: drain_step_def Let_def)
        next
          case (Inr l3)
          with r2 have "rc (DrainEvents uf l3) \<noteq> Inl OutOfFuel" by simp
          from H[OF this] b Inr True Some Cons StreamReset show ?thesis
            by (simp add: drain_step_def Let_def)
        qed
      qed
    qed
  qed
qed

lemma step_mono:
  assumes H: "\<And>c. rc c \<noteq> Inl OutOfFuel \<Longrightarrow> rc' c = rc c"
    and r: "step e rc c \<noteq> Inl OutOfFuel"
  shows "step e rc' c = step e rc c"
proof (cases c)
  case (ProcessEvents uf l)
  with r drain_step_mono[where rc=rc and rc'=rc', OF H, of e uf l] show ?thesis
    by (auto simp: step_def split: option.splits)
next
  case (DrainEvents uf l)
  with r drain_step_mono[where rc=rc and rc'=rc', OF H, of e uf l] show ?thesis
    by (auto simp: step_def)
next
  case (HandleHandshakeCompleted uf ap ea sr l)
  with r show ?thesis
    by (auto simp: step_def H split: sum.splits option.splits if_splits)
next
  case (EventToChild uf event l)
  with r show ?thesis by (auto simp: step_def Let_def H)
next
  case (FilterCommands uf commands l)
  show ?thesis
  proof (cases commands)
    case Nil
    with FilterCommands show ?thesis by (simp add: step_def)
  next
    case (Cons command rest)
    from r FilterCommands Cons have r1:
      "(case filter_command e rc uf command l of Inl x \<Rightarrow> Inl x
        | Inr l1 \<Rightarrow> rc (FilterCommands uf rest l1)) \<noteq> Inl OutOfFuel"
      by (simp add: step_def)
    then have "filter_command e rc uf command l \<noteq> Inl OutOfFuel"
      by (cases "filter_command e rc uf command l") auto
    from filter_command_mono[where rc=rc and rc'=rc', OF H this]
    have a: "filter_command e rc' uf command l = filter_command e rc uf command l" .
    show ?thesis
    proof (cases "filter_command e rc uf command l")
      case (Inl x)
      with a FilterCommands Cons show ?thesis by (simp add: step_def)
    next
      case (Inr l1)
      with r1 have "rc (FilterCommands uf rest l1) \<noteq> Inl OutOfFuel" by simp
      from H[OF this] a Inr FilterCommands Cons show ?thesis by (simp add: step_def)
    qed
  qed
qed

lemma run_Suc_mono:
  "run e n c \<noteq> Inl OutOfFuel \<Longrightarrow> run e (Suc n) c = run e n c"
proof (induction n arbitrary: c)
  case 0
  then show ?case by simp
next
  case (Suc n)
  have H: "\<And>c. run e n c \<noteq> Inl OutOfFuel \<Longrightarrow> run e (Suc n) c = run e n c"
    by (rule Suc.IH)
  from Suc.prems have r: "step e (run e n) c \<noteq> Inl OutOfFuel" by simp
  have "step e (run e (Suc n)) c = step e (run e n) c"
    by (rule step_mono[where rc="run e n" and rc'="run e (Suc n)", OF H r])
  then show ?case by simp
qed

lemma run_mono:
  "run e n c \<noteq> Inl OutOfFuel \<Longrightarrow> run e (n + k) c = run e n c"
proof (induction k)
  case 0
  then show ?case by simp
next
  case (Suc k)
  then have "run e (n + k) c \<noteq> Inl OutOfFuel" by simp
  from run_Suc_mono[OF this] Suc show ?case by simp
qed

subsection \<open>The loop of process_events\<close>

lemma process_events_Suc:
  "quic l = Some q \<Longrightarrow> process_events e (Suc n) uf l = drain_step e (run e n) uf l"
  by (simp add: process_events_def step_def)

lemma step_drain: "step e rc (DrainEvents uf l) = drain_step e rc uf l"
  by (simp add: step_def)

lemma drain_events_Suc:
  "run e (Suc n) (DrainEvents uf l) = drain_step e (run e n) uf l"
  by (simp add: step_def)

lemma queue_same:
  "events (quic_store l q) = rest \<Longrightarrow>
   l\<lparr>quic_store := (quic_store l)(q := (quic_store l q)\<lparr>events := rest\<rparr>)\<rparr> = l"
proof -
  assume "events (quic_store l q) = rest"
  then have "(quic_store l q)\<lparr>events := rest\<rparr> = quic_store l q" by auto
  then have "(quic_store l)(q := (quic_store l q)\<lparr>events := rest\<rparr>) = quic_store l"
    by (simp only: fun_upd_triv)
  then show ?thesis by simp
qed

lemma handle_childless_queue:
  "handle_childless ev (l\<lparr>quic_store := s\<rparr>) =
     (case handle_childless ev l of Inl x \<Rightarrow> Inl x | Inr l1 \<Rightarrow> Inr (l1\<lparr>quic_store := s\<rparr>))"
  by (cases ev; simp add: handle_childless_def handle_connection_id_issued_def
      handle_connection_id_retired_def Let_def split: option.splits)

lemma handle_childless_frame:
  "handle_childless ev l = Inr l1 \<Longrightarrow>
     quic l1 = quic l \<and> quic_store l1 = quic_store l \<and> quic_calls l1 = quic_calls l \<and>
     yielded l1 = yielded l"
  by (cases ev; auto simp add: handle_childless_def handle_connection_id_issued_def
      handle_connection_id_retired_def Let_def split: option.splits if_splits)

lemma drain_childless:
  assumes "quic l = Some q" "events (quic_store l q) = ev # rest" "childless ev"
  shows "drain_step e rc uf l =
     (case handle_childless ev
             (l\<lparr>quic_store := (quic_store l)(q := (quic_store l q)\<lparr>events := rest\<rparr>)\<rparr>) of
        Inl x \<Rightarrow> Inl x
      | Inr l2 \<Rightarrow> rc (DrainEvents uf l2))"
  using assms
  by (cases ev; simp add: drain_step_def handle_childless_def childless_def Let_def)

lemma drain_childless_prefix:
  "list_all childless evs \<Longrightarrow> quic l = Some q \<Longrightarrow> events (quic_store l q) = evs @ rest \<Longrightarrow>
   handle_all_childless evs
     (l\<lparr>quic_store := (quic_store l)(q := (quic_store l q)\<lparr>events := rest\<rparr>)\<rparr>) = Inr l1 \<Longrightarrow>
   run e (length evs + n) (DrainEvents uf l) = run e n (DrainEvents uf l1)"
proof (induction evs arbitrary: l)
  case Nil
  from Nil(3) have ev: "events (quic_store l q) = rest" by simp
  from Nil(4) have "l1 = l" unfolding handle_all_childless.simps queue_same[OF ev] by simp
  then show ?case by simp
next
  case (Cons ev evs)
  define S where "S r = (quic_store l)(q := (quic_store l q)\<lparr>events := r\<rparr>)" for r
  from Cons.prems(4)[folded S_def] obtain m where
    m: "handle_childless ev (l\<lparr>quic_store := S rest\<rparr>) = Inr m"
    and all: "handle_all_childless evs m = Inr l1"
    by (auto split: sum.splits)
  from m obtain l0 where l0: "handle_childless ev l = Inr l0" and m0: "m = l0\<lparr>quic_store := S rest\<rparr>"
    by (auto simp: handle_childless_queue split: sum.splits)
  let ?l2 = "l0\<lparr>quic_store := S (evs @ rest)\<rparr>"
  have h2: "handle_childless ev (l\<lparr>quic_store := S (evs @ rest)\<rparr>) = Inr ?l2"
    using l0 by (simp add: handle_childless_queue)
  from Cons.prems have c: "childless ev" and cs: "list_all childless evs"
    and ev: "events (quic_store l q) = ev # (evs @ rest)" by simp_all
  have d: "drain_step e (run e (length evs + n)) uf l = run e (length evs + n) (DrainEvents uf ?l2)"
    using drain_childless[OF Cons.prems(2) ev c, of e "run e (length evs + n)" uf, folded S_def] h2
    by simp
  have q2: "quic ?l2 = Some q" using handle_childless_frame[OF l0] Cons.prems(2) by simp
  have e2: "events (quic_store ?l2 q) = evs @ rest" by (simp add: S_def)
  have "(quic_store ?l2)(q := (quic_store ?l2 q)\<lparr>events := rest\<rparr>) = S rest"
    by (simp add: S_def)
  then have eq: "?l2\<lparr>quic_store := (quic_store ?l2)(q := (quic_store ?l2 q)\<lparr>events := rest\<rparr>)\<rparr> = m"
    unfolding m0 by simp
  have "run e (length evs + n) (DrainEvents uf ?l2) = run e n (DrainEvents uf l1)"
    by (rule Cons.IH[OF cs q2 e2]) (simp only: eq all)
  with d show ?case by (simp add: step_drain)
qed

lemma handle_all_childless_frame:
  "handle_all_childless evs l = Inr l1 \<Longrightarrow>
     quic l1 = quic l \<and> quic_store l1 = quic_store l \<and> quic_calls l1 = quic_calls l \<and>
     yielded l1 = yielded l"
proof (induction evs arbitrary: l)
  case Nil
  then show ?case by simp
next
  case (Cons ev evs)
  from Cons.prems obtain m where m: "handle_childless ev l = Inr m"
    and all: "handle_all_childless evs m = Inr l1"
    by (auto split: sum.splits)
  from Cons.IH[OF all] handle_childless_frame[OF m] show ?case by simp
qed

lemma process_events_childless_prefix:
  assumes "list_all childless evs" "quic l = Some q" "events (quic_store l q) = evs @ rest"
    "handle_all_childless evs
       (l\<lparr>quic_store := (quic_store l)(q := (quic_store l q)\<lparr>events := rest\<rparr>)\<rparr>) = Inr l1"
  shows "process_events e (length evs + Suc n) uf l = process_events e (Suc n) uf l1"
proof -
  have "quic l1 = Some q" using handle_all_childless_frame[OF assms(4)] assms(2) by simp
  then have a: "process_events e (Suc n) uf l1 = run e (Suc n) (DrainEvents uf l1)"
    by (simp add: process_events_Suc step_drain)
  have "process_events e (length evs + Suc n) uf l = run e (length evs + Suc n) (DrainEvents uf l)"
    using assms(2) process_events_Suc[of l q e "length evs + n" uf] by (simp add: step_drain)
  also have "\<dots> = run e (Suc n) (DrainEvents uf l1)"
    by (rule drain_childless_prefix[OF assms])
  finally show ?thesis using a by simp
qed

lemma rearm_timer_quic:
  "rearm_timer e q l = Inr l' \<Longrightarrow> quic l' = quic l \<and> quic_calls l' = quic_calls l @ [(q, GetTimer)]"
  by (auto simp: rearm_timer_def Let_def quic_call_def read_time_def lyield_def
      split: option.splits if_splits)

lemma transmit_quic:
  assumes "transmit e l = Inr l'"
  shows "quic l' = quic l \<and> quic l \<noteq> None \<and>
         (\<exists>q now. quic l = Some q \<and>
            quic_calls l' = quic_calls l @ [(q, DatagramsToSend now), (q, GetTimer)])"
proof -
  from assms obtain q where q: "quic l = Some q" by (auto simp: transmit_def split: option.splits)
  let ?now = "loop_time e (ticks l)"
  let ?l1 = "l\<lparr>ticks := Suc (ticks l),
                quic_store := (quic_store l)
                  (q := snd (datagrams_to_send e ?now (quic_store l q))),
                quic_calls := quic_calls l @ [(q, DatagramsToSend ?now)]\<rparr>"
  from assms q obtain l2 where
    s: "send_datagrams (fst (datagrams_to_send e ?now (quic_store l q))) ?l1 = Inr l2"
    and r: "rearm_timer e q l2 = Inr l'"
    by (auto simp: transmit_unfold split: sum.splits)
  from send_datagrams_frame[OF s] have "quic l2 = Some q"
    "quic_calls l2 = quic_calls l @ [(q, DatagramsToSend ?now)]"
    using q by simp_all
  with rearm_timer_quic[OF r] q show ?thesis by auto
qed

lemma drain_terminated:
  assumes "quic l = Some q" "events (quic_store l q) = ConnectionTerminated code ft reason # rest"
  shows "drain_step e rc uf l =
     (case handle_connection_terminated e (code, ft, reason)
             (l\<lparr>quic_store := (quic_store l)(q := (quic_store l q)\<lparr>events := rest\<rparr>)\<rparr>) of
        Inl x \<Rightarrow> Inl x
      | Inr l2 \<Rightarrow> Inr (if connected (self_conn l2) then lyield (CloseConnection (conn l2)) l2 else l2))"
  using assms by (simp add: drain_step_def Let_def)

lemma handle_connection_terminated_frame:
  "handle_connection_terminated e ev l = Inr l2 \<Longrightarrow>
     quic l2 = None \<and> quic_store l2 = quic_store l \<and> quic_calls l2 = quic_calls l"
  by (auto simp: handle_connection_terminated_def Let_def lyield_def update_self_conn_def
      split: option.splits if_splits)

lemma drain_step_end:
  assumes H: "\<And>uf l l'. rc (DrainEvents uf l) = Inr l' \<Longrightarrow>
                (if quic l' = None
                 then \<exists>ev l1 l2. handle_connection_terminated e ev l1 = Inr l2 \<and>
                        l' = (if connected (self_conn l2) then lyield (CloseConnection (conn l2)) l2 else l2)
                 else \<exists>l2. transmit e l2 = Inr l')"
    and r: "drain_step e rc uf l = Inr l'"
  shows "if quic l' = None
         then \<exists>ev l1 l2. handle_connection_terminated e ev l1 = Inr l2 \<and>
                l' = (if connected (self_conn l2) then lyield (CloseConnection (conn l2)) l2 else l2)
         else \<exists>l2. transmit e l2 = Inr l'"
proof -
  from r obtain q where q: "quic l = Some q" by (auto simp: drain_step_def split: option.splits)
  show ?thesis
  proof (cases "events (quic_store l q)")
    case Nil
    with r q have t: "transmit e l = Inr l'" by (simp add: drain_step_def)
    with transmit_quic[OF t] show ?thesis by auto
  next
    case (Cons event rest)
    show ?thesis
    proof (cases event)
      case (ConnectionTerminated code ft reason)
      with r q Cons obtain l1 l2 where a: "handle_connection_terminated e (code, ft, reason) l1 = Inr l2"
        and b: "l' = (if connected (self_conn l2) then lyield (CloseConnection (conn l2)) l2 else l2)"
        by (auto simp: drain_terminated split: sum.splits)
      from handle_connection_terminated_frame[OF a] b have n: "quic l' = None"
        by (simp add: lyield_def)
      have "\<exists>ev l1 l2. handle_connection_terminated e ev l1 = Inr l2 \<and>
                l' = (if connected (self_conn l2) then lyield (CloseConnection (conn l2)) l2 else l2)"
        by (intro exI conjI, rule a, rule b)
      with n show ?thesis by simp
    next
      case (OtherQuicEvent k)
      with r q Cons show ?thesis by (simp add: drain_step_def Let_def)
    next
      case (ConnectionIdIssued cid)
      with r q Cons obtain l2 where "rc (DrainEvents uf l2) = Inr l'"
        by (auto simp: drain_step_def Let_def split: sum.splits)
      then show ?thesis by (rule H)
    next
      case (ConnectionIdRetired cid)
      with r q Cons obtain l2 where "rc (DrainEvents uf l2) = Inr l'"
        by (auto simp: drain_step_def Let_def split: sum.splits)
      then show ?thesis by (rule H)
    next
      case (HandshakeCompleted ap ea sr)
      with r q Cons obtain l2 where "rc (DrainEvents uf l2) = Inr l'"
        by (auto simp: drain_step_def Let_def split: sum.splits option.splits)
      then show ?thesis by (rule H)
    next
      case PingAcknowledged
      with r q Cons obtain l2 where "rc (DrainEvents uf l2) = Inr l'"
        by (auto simp: drain_step_def Let_def)
      then show ?thesis by (rule H)
    next
      case ProtocolNegotiated
      with r q Cons obtain l2 where "rc (DrainEvents uf l2) = Inr l'"
        by (auto simp: drain_step_def Let_def)
      then show ?thesis by (rule H)
    next
      case (DatagramFrameReceived data)
      with r q Cons obtain l2 where "rc (DrainEvents uf l2) = Inr l'"
        by (auto simp: drain_step_def Let_def split: sum.splits if_splits)
      then show ?thesis by (rule H)
    next
      case (StreamDataReceived sid data es)
      with r q Cons obtain l2 where "rc (DrainEvents uf l2) = Inr l'"
        by (auto simp: drain_step_def Let_def split: sum.splits if_splits)
      then show ?thesis by (rule H)
    next
      case (StreamReset sid code)
      with r q Cons obtain l2 where "rc (DrainEvents uf l2) = Inr l'"
        by (auto simp: drain_step_def Let_def split: sum.splits if_splits)
      then show ?thesis by (rule H)
    qed
  qed
qed

lemma run_drain_end:
  "run e n (DrainEvents uf l) = Inr l' \<Longrightarrow>
     (if quic l' = None
      then \<exists>ev l1 l2. handle_connection_terminated e ev l1 = Inr l2 \<and>
             l' = (if connected (self_conn l2) then lyield (CloseConnection (conn l2)) l2 else l2)
      else \<exists>l2. transmit e l2 = Inr l')"
proof (induction n arbitrary: uf l l')
  case 0
  then show ?case by simp
next
  case (Suc n)
  from Suc.prems have s: "drain_step e (run e n) uf l = Inr l'" by (simp add: step_def)
  have H: "\<And>uf l l'. run e n (DrainEvents uf l) = Inr l' \<Longrightarrow>
                (if quic l' = None
                 then \<exists>ev l1 l2. handle_connection_terminated e ev l1 = Inr l2 \<and>
                        l' = (if connected (self_conn l2) then lyield (CloseConnection (conn l2)) l2 else l2)
                 else \<exists>l2. transmit e l2 = Inr l')"
    by (rule Suc.IH)
  show ?case by (rule drain_step_end[where rc="run e n" and e=e, OF H s])
qed

lemma process_events_end:
  assumes "process_events e n uf l = Inr l'"
  shows "if quic l' = None
      then \<exists>ev l1 l2. handle_connection_terminated e ev l1 = Inr l2 \<and>
             l' = (if connected (self_conn l2) then lyield (CloseConnection (conn l2)) l2 else l2)
      else \<exists>l2. transmit e l2 = Inr l'"
proof (cases n)
  case 0
  with assms show ?thesis by (simp add: process_events_def)
next
  case (Suc m)
  with assms obtain q where q: "quic l = Some q"
    by (auto simp: process_events_def step_def split: option.splits)
  with assms Suc have "run e n (DrainEvents uf l) = Inr l'"
    by (simp add: process_events_def step_def)
  then show ?thesis by (rule run_drain_end)
qed

subsection \<open>Wakeups that fire\<close>







lemma wakeup_fired_timer:
  assumes m: "map_of (wakeup_commands l) command = Some timer"
    and q: "quic l = Some q"
  shows "base_handle_event e n (Wakeup command) l =
     process_events e n False
       (l\<lparr>wakeup_commands := AList.delete command (wakeup_commands l),
          ticks := Suc (ticks l),
          quic_store := (quic_store l)
            (q := on_handle_timer e (max timer (loop_time e (ticks l))) (quic_store l q)),
          quic_calls := quic_calls l @ [(q, HandleTimer (max timer (loop_time e (ticks l))))]\<rparr>)"
  using m q
  by (simp add: base_handle_event_def as_data_received_def read_time_def quic_call_def Let_def)


section \<open>The theorems on the concrete layers\<close>

lemmas layer_demo_defs =
  demo_layer_env_def demo_layer_def demo_layer_started_def demo_connection_def
  demo_pull_quic_header_def demo_encode_def demo_engine_def demo_env_def

theorem version_negotiation_gets_exhausted_generator_witness:
  "pull_quic_header demo_layer_env ''Addss'' (quic_connection_id_length (demo_layer ClientConn)) =
     Some \<lparr>version = Some 65, packet_type = 0, destination_cid = ''dd'', source_cid = ''ss''\<rparr> \<and>
   65 \<notin> set (filter (\<lambda>x. x \<noteq> QuicProtocolVersion_NEGOTIATION demo_layer_env)
                 (QuicProtocolVersion demo_layer_env)) \<and>
   datagram_received demo_layer_env ''Addss'' (demo_layer ClientConn) =
     Inr (None, lyield (SendData ClientConn ''Nss/dd/'') (demo_layer ClientConn)) \<and>
   encode_quic_version_negotiation demo_layer_env ''dd'' ''ss''
       (PyList (filter (\<lambda>x. x \<noteq> QuicProtocolVersion_NEGOTIATION demo_layer_env)
                  (QuicProtocolVersion demo_layer_env))) =
     Inr ''Nss/dd/v1vff00001dvff00001evff00001fvff000020''"
proof -
  let ?h = "\<lparr>version = Some 65, packet_type = 0, destination_cid = ''dd'', source_cid = ''ss''\<rparr>"
  have h1: "pull_quic_header demo_layer_env ''Addss''
              (quic_connection_id_length (demo_layer ClientConn)) = Some ?h"
    by (simp add: demo_layer_env_def demo_layer_def demo_pull_quic_header_def)
  have h2: "version ?h = Some 65" by simp
  have h3: "65 \<notin> set (filter (\<lambda>x. x \<noteq> QuicProtocolVersion_NEGOTIATION demo_layer_env)
                 (QuicProtocolVersion demo_layer_env))"
    by (simp add: demo_layer_env_def)
  have enc: "encode_quic_version_negotiation demo_layer_env ''dd'' ''ss'' (PyGenerator []) =
               Inr ''Nss/dd/''"
    by (simp add: demo_layer_env_def demo_encode_def)
  have c: "conn (demo_layer ClientConn) = ClientConn" by (simp add: demo_layer_def)
  have r: "datagram_received demo_layer_env ''Addss'' (demo_layer ClientConn) =
     Inr (None, lyield (SendData ClientConn ''Nss/dd/'') (demo_layer ClientConn))"
    using version_negotiation_gets_exhausted_generator[OF h1 h2 h3] enc c by simp
  have full: "encode_quic_version_negotiation demo_layer_env ''dd'' ''ss''
       (PyList (filter (\<lambda>x. x \<noteq> QuicProtocolVersion_NEGOTIATION demo_layer_env)
                  (QuicProtocolVersion demo_layer_env))) =
     Inr ''Nss/dd/v1vff00001dvff00001evff00001fvff000020''"
    by (simp add: demo_layer_env_def demo_encode_def hex_int_def)
  from h1 h3 r full show ?thesis by blast
qed

lemmas layer_defs =
  process_events_def event_to_child_def handle_handshake_completed_def step_def drain_step_def
  filter_command_def server_filter_def transmit_def rearm_timer_def read_time_def lyield_def
  quic_call_def self_conn_def update_self_conn_def handle_connection_terminated_def
  handle_connection_id_issued_def handle_connection_id_retired_def
  base_handle_handshake_completed_def start_tls_def build_configuration_def tls_established_def
  error_code_to_str_def is_success_error_code_def truthy_def Let_def

text \<open>
  A client layer whose engine issues a connection id and then terminates: the layer has
  dropped its engine and the id is still in the table.
\<close>

theorem termination_keeps_connection_ids:
  "\<exists>l'. process_events demo_layer_env 4 False
           ((demo_layer_started ClientConn [])
              \<lparr>quic_store := (\<lambda>q. demo_engine\<lparr>events := [ConnectionIdIssued ''c1'',
                                                           ConnectionTerminated 0 None ''bye''],
                                               terminated := True\<rparr>)\<rparr>) = Inr l' \<and>
         quic l' = None \<and>
         connections l' = [(((''127.0.0.1'', 443), ''c1''), 1)]"
  by (simp add: layer_defs layer_demo_defs eval_nat_numeral)

theorem connections_table_single_owner_witness:
  "conn ((demo_layer ClientConn)\<lparr>connections := [(((''127.0.0.1'', 443), ''c1''), 1),
                                                  (((''127.0.0.1'', 443), ''c2''), 2)]\<rparr>) = ClientConn \<and>
   distinct (map fst (connections ((demo_layer ClientConn)
       \<lparr>connections := [(((''127.0.0.1'', 443), ''c1''), 1), (((''127.0.0.1'', 443), ''c2''), 2)]\<rparr>))) \<and>
   handle_connection_id_issued ''c1'' ((demo_layer ClientConn)
       \<lparr>connections := [(((''127.0.0.1'', 443), ''c1''), 1), (((''127.0.0.1'', 443), ''c2''), 2)]\<rparr>)
     = Inl AssertionError \<and>
   handle_connection_id_retired ''c2'' ((demo_layer ClientConn)
       \<lparr>connections := [(((''127.0.0.1'', 443), ''c1''), 1), (((''127.0.0.1'', 443), ''c2''), 2)]\<rparr>)
     = Inl AssertionError \<and>
   handle_connection_id_retired ''c1'' ((demo_layer ClientConn)
       \<lparr>connections := [(((''127.0.0.1'', 443), ''c1''), 1), (((''127.0.0.1'', 443), ''c2''), 2)]\<rparr>)
     = Inr ((demo_layer ClientConn)\<lparr>connections := [(((''127.0.0.1'', 443), ''c2''), 2)]\<rparr>) \<and>
   handle_connection_id_issued ''c3'' ((demo_layer ClientConn)
       \<lparr>connections := [(((''127.0.0.1'', 443), ''c1''), 1), (((''127.0.0.1'', 443), ''c2''), 2)]\<rparr>)
     = Inr ((demo_layer ClientConn)
       \<lparr>connections := [(((''127.0.0.1'', 443), ''c1''), 1), (((''127.0.0.1'', 443), ''c2''), 2),
                        (((''127.0.0.1'', 443), ''c3''), 1)]\<rparr>)"
proof -
  let ?l = "(demo_layer ClientConn)\<lparr>connections := [(((''127.0.0.1'', 443), ''c1''), 1),
                                                  (((''127.0.0.1'', 443), ''c2''), 2)]\<rparr>"
  have c: "conn ?l = ClientConn" by (simp add: demo_layer_def)
  have d: "distinct (map fst (connections ?l))" by simp
  have s: "sockname (ctx_client ?l) = (''127.0.0.1'', 443)" "self_id ?l = 1"
    by (simp_all add: demo_layer_def demo_connection_def)
  from connections_table_single_owner[OF c d, of "''c1''"]
       connections_table_single_owner[OF c d, of "''c2''"]
       connections_table_single_owner[OF c d, of "''c3''"] c d s
  show ?thesis by simp
qed



end
